theory Spec2Isabelle
  imports Complex_Main
begin

section \<open>Numbers, the random source and rounding\<close>

text \<open>
  The generators of \<^verbatim>\<open>src/components/mockData.js\<close> compute with JavaScript numbers,
  that is with doubles. A finite double is a real number, and the arithmetic on finite
  numbers is taken exact: the rounding of a result to the nearest double is not
  modelled. What is modelled, in the type \<open>number\<close> below, is a result that leaves the
  range of the doubles, the infinities and NaN. The generators whose numeric parameters
  can be any number (\<open>generateCandlestick\<close>, \<open>generateBoxplot\<close>) compute in \<open>number\<close>.
  Where every operand is a constant or a small integer (\<open>generateFunnel\<close>,
  \<open>generateGraph\<close>, \<open>buildTree\<close>) no result can leave the range, and the computation
  is written on the reals, with \<open>rand\<close> and \<open>randInt\<close>.

  \<^verbatim>\<open>Math.random()\<close> is the only effect of the generators. The source of randomness is
  a function \<open>R\<close> giving the result of the \<open>k\<close>-th call, and every generator threads
  the number \<open>k\<close> of calls made so far.
\<close>

type_synonym random_source = "nat \<Rightarrow> real"

text \<open>\<^verbatim>\<open>Math.random()\<close> returns a number in \<open>[0, 1)\<close>.\<close>

definition unit_interval :: "random_source \<Rightarrow> bool" where
  "unit_interval R = (\<forall>n. 0 \<le> R n \<and> R n < 1)"

text \<open>\<^verbatim>\<open>const rand = (min, max) => Math.random() * (max - min) + min\<close>\<close>

definition rand :: "random_source \<Rightarrow> nat \<Rightarrow> real \<Rightarrow> real \<Rightarrow> real \<times> nat" where
  "rand R k lo hi = (R k * (hi - lo) + lo, Suc k)"

text \<open>\<^verbatim>\<open>const randInt = (min, max) => Math.floor(rand(min, max + 1))\<close>\<close>

definition randInt :: "random_source \<Rightarrow> nat \<Rightarrow> real \<Rightarrow> real \<Rightarrow> int \<times> nat" where
  "randInt R k lo hi = (case rand R k lo (hi + 1) of (x, k') \<Rightarrow> (\<lfloor>x\<rfloor>, k'))"

text \<open>
  \<^verbatim>\<open>Number(x.toFixed(digits))\<close>: \<^verbatim>\<open>toFixed\<close> takes the sign off, prints numbers of
  magnitude \<open>10^21\<close> and more as they are, and otherwise picks the integer \<open>n\<close> with
  \<open>n / 10^digits\<close> nearest to the magnitude, the larger one on a tie.
\<close>

definition toFixed :: "real \<Rightarrow> nat \<Rightarrow> real" where
  "toFixed x digits =
     (if x < 0 then
        (if 10 ^ 21 \<le> - x then x
         else - (of_int \<lfloor>(- x) * 10 ^ digits + 1 / 2\<rfloor> / 10 ^ digits))
      else
        (if 10 ^ 21 \<le> x then x
         else of_int \<lfloor>x * 10 ^ digits + 1 / 2\<rfloor> / 10 ^ digits))"

text \<open>\<^verbatim>\<open>Math.round(x)\<close>: the nearest integer, the larger one on a tie.\<close>

definition Math_round :: "real \<Rightarrow> int" where
  "Math_round x = \<lfloor>x + 1 / 2\<rfloor>"

section \<open>Doubles: overflow, the infinities and NaN\<close>

text \<open>
  A JavaScript number is a finite double, \<^verbatim>\<open>Infinity\<close>, \<^verbatim>\<open>-Infinity\<close> or \<^verbatim>\<open>NaN\<close>. The result
  of an operation on finite numbers is the exact result when that lies in the range of
  the doubles; from \<open>2^1024 - 2^970\<close> on (the first real that rounds to no finite
  double) it is an infinity. The sign of zero is not modelled. \<open>in_range\<close> says that a
  value of the type is a double: a finite one lies below that threshold.
\<close>

datatype number = Finite real | PosInf | NegInf | NaN

definition overflow_threshold :: real where
  "overflow_threshold = 2 ^ 1024 - 2 ^ 970"

definition rounded :: "real \<Rightarrow> number" where
  "rounded x =
     (if overflow_threshold \<le> x then PosInf
      else if x \<le> - overflow_threshold then NegInf
      else Finite x)"

definition in_range :: "number \<Rightarrow> bool" where
  "in_range a = (case a of Finite x \<Rightarrow> \<bar>x\<bar> < overflow_threshold | _ \<Rightarrow> True)"

text \<open>Unary minus, \<^verbatim>\<open>a + b\<close>, \<^verbatim>\<open>a - b\<close> and \<^verbatim>\<open>a * b\<close>.\<close>

fun num_neg :: "number \<Rightarrow> number" where
  "num_neg (Finite x) = Finite (- x)"
| "num_neg PosInf = NegInf"
| "num_neg NegInf = PosInf"
| "num_neg NaN = NaN"

fun num_add :: "number \<Rightarrow> number \<Rightarrow> number" where
  "num_add NaN b = NaN"
| "num_add a NaN = NaN"
| "num_add (Finite x) (Finite y) = rounded (x + y)"
| "num_add PosInf NegInf = NaN"
| "num_add NegInf PosInf = NaN"
| "num_add PosInf b = PosInf"
| "num_add a PosInf = PosInf"
| "num_add NegInf b = NegInf"
| "num_add a NegInf = NegInf"

definition num_sub :: "number \<Rightarrow> number \<Rightarrow> number" where
  "num_sub a b = num_add a (num_neg b)"

fun num_mul :: "number \<Rightarrow> number \<Rightarrow> number" where
  "num_mul NaN b = NaN"
| "num_mul a NaN = NaN"
| "num_mul (Finite x) (Finite y) = rounded (x * y)"
| "num_mul (Finite x) PosInf = (if x = 0 then NaN else if 0 < x then PosInf else NegInf)"
| "num_mul (Finite x) NegInf = (if x = 0 then NaN else if 0 < x then NegInf else PosInf)"
| "num_mul PosInf (Finite y) = (if y = 0 then NaN else if 0 < y then PosInf else NegInf)"
| "num_mul NegInf (Finite y) = (if y = 0 then NaN else if 0 < y then NegInf else PosInf)"
| "num_mul PosInf PosInf = PosInf"
| "num_mul NegInf NegInf = PosInf"
| "num_mul PosInf NegInf = NegInf"
| "num_mul NegInf PosInf = NegInf"

text \<open>\<^verbatim>\<open>a <= b\<close> and \<^verbatim>\<open>a > 0\<close>: a comparison with NaN is false.\<close>

fun num_le :: "number \<Rightarrow> number \<Rightarrow> bool" where
  "num_le NaN b = False"
| "num_le a NaN = False"
| "num_le (Finite x) (Finite y) = (x \<le> y)"
| "num_le NegInf b = True"
| "num_le a PosInf = True"
| "num_le a NegInf = False"
| "num_le PosInf b = False"

fun positive :: "number \<Rightarrow> bool" where
  "positive (Finite x) = (0 < x)"
| "positive PosInf = True"
| "positive NegInf = False"
| "positive NaN = False"

text \<open>\<^verbatim>\<open>Math.max(a, b)\<close> and \<^verbatim>\<open>Math.min(a, b)\<close>: NaN when an argument is NaN.\<close>

definition Math_max :: "number \<Rightarrow> number \<Rightarrow> number" where
  "Math_max a b = (if a = NaN \<or> b = NaN then NaN else if num_le a b then b else a)"

definition Math_min :: "number \<Rightarrow> number \<Rightarrow> number" where
  "Math_min a b = (if a = NaN \<or> b = NaN then NaN else if num_le a b then a else b)"

text \<open>
  \<^verbatim>\<open>Number(a.toFixed(digits))\<close>: \<^verbatim>\<open>toFixed\<close> prints an infinity and NaN by name, and
  \<^verbatim>\<open>Number\<close> reads them back.
\<close>

definition toFixed_number :: "number \<Rightarrow> nat \<Rightarrow> number" where
  "toFixed_number a digits = (case a of Finite x \<Rightarrow> Finite (toFixed x digits) | _ \<Rightarrow> a)"

text \<open>\<^verbatim>\<open>rand(min, max)\<close> on numbers: \<^verbatim>\<open>Math.random() * (max - min) + min\<close>.\<close>

definition js_rand :: "random_source \<Rightarrow> nat \<Rightarrow> number \<Rightarrow> number \<Rightarrow> number \<times> nat" where
  "js_rand R k lo hi = (num_add (num_mul (Finite (R k)) (num_sub hi lo)) lo, Suc k)"

section \<open>Candlestick rows\<close>

text \<open>
  A row is the array \<^verbatim>\<open>[time, open, high, low, close]\<close>.
  \<^verbatim>\<open>
  export function generateCandlestick({ points, start, interval, base, volatility }) {
    const data = [];
    let price = base;
    for (let i = 0; i < points; i++) {
      const time = start + i * interval;
      const open = price;
      price = Math.max(1, price + rand(-volatility, volatility));
      const close = price;
      const high = Math.max(open, close) + rand(0, volatility * 1.5);
      const low = Math.min(open, close) - rand(0, volatility * 1.5);
      data.push([time, Number(open.toFixed(2)), Number(high.toFixed(2)),
                 Number(low.toFixed(2)), Number(close.toFixed(2))]);
    }
    return data;
  }
  \<close>
  The loop is the recursive function \<open>candlestick_loop\<close> over the counter \<open>i\<close>, with
  the mutable \<^verbatim>\<open>price\<close> and \<^verbatim>\<open>data\<close> as arguments; its body is \<open>candlestick_body\<close>.
  \<^verbatim>\<open>start\<close>, \<^verbatim>\<open>interval\<close>, \<^verbatim>\<open>base\<close> and \<^verbatim>\<open>volatility\<close> are numbers. The count \<^verbatim>\<open>points\<close> is
  a finite number, whole or not: the loop runs while \<^verbatim>\<open>i < points\<close>.
\<close>

type_synonym candle = "number \<times> number \<times> number \<times> number \<times> number"

definition candle_open :: "candle \<Rightarrow> number" where
  "candle_open c = (case c of (t, opn, high, low, close) \<Rightarrow> opn)"

definition candle_high :: "candle \<Rightarrow> number" where
  "candle_high c = (case c of (t, opn, high, low, close) \<Rightarrow> high)"

definition candle_low :: "candle \<Rightarrow> number" where
  "candle_low c = (case c of (t, opn, high, low, close) \<Rightarrow> low)"

definition candle_close :: "candle \<Rightarrow> number" where
  "candle_close c = (case c of (t, opn, high, low, close) \<Rightarrow> close)"

text \<open>One pass through the loop body: the row pushed, the new price, the calls made.\<close>

definition candlestick_body ::
  "nat \<Rightarrow> number \<Rightarrow> number \<Rightarrow> number \<Rightarrow> random_source \<Rightarrow> number \<Rightarrow> nat
     \<Rightarrow> candle \<times> number \<times> nat" where
  "candlestick_body i start interval volatility R price k =
     (let time = num_add start (num_mul (Finite (of_nat i)) interval);
          opn = price;
          (d, k1) = js_rand R k (num_neg volatility) volatility;
          price' = Math_max (Finite 1) (num_add price d);
          close = price';
          (dh, k2) = js_rand R k1 (Finite 0) (num_mul volatility (Finite 1.5));
          high = num_add (Math_max opn close) dh;
          (dl, k3) = js_rand R k2 (Finite 0) (num_mul volatility (Finite 1.5));
          low = num_sub (Math_min opn close) dl
      in ((time, toFixed_number opn 2, toFixed_number high 2, toFixed_number low 2,
           toFixed_number close 2), price', k3))"

function candlestick_loop ::
  "nat \<Rightarrow> real \<Rightarrow> number \<Rightarrow> number \<Rightarrow> number \<Rightarrow> random_source \<Rightarrow> number \<Rightarrow> candle list \<Rightarrow> nat
     \<Rightarrow> candle list \<times> nat" where
  "candlestick_loop i points start interval volatility R price data k =
     (if of_nat i < points then
        (case candlestick_body i start interval volatility R price k of
           (row, price', k') \<Rightarrow>
             candlestick_loop (i + 1) points start interval volatility R price' (data @ [row]) k')
      else (data, k))"
  by pat_completeness auto
termination
  by (relation "measure (\<lambda>(i, points, start, interval, volatility, R, price, data, k).
        nat \<lceil>points\<rceil> - i)") (auto, linarith)

declare candlestick_loop.simps [simp del]

definition generateCandlestick ::
  "real \<Rightarrow> number \<Rightarrow> number \<Rightarrow> number \<Rightarrow> number \<Rightarrow> random_source \<Rightarrow> nat \<Rightarrow> candle list \<times> nat" where
  "generateCandlestick points start interval base volatility R k =
     candlestick_loop 0 points start interval volatility R base [] k"

section \<open>Errors, strings and arrays\<close>

text \<open>
  What the code can throw: \<^verbatim>\<open>new Error(message)\<close>, the \<^verbatim>\<open>TypeError\<close> of a method call on
  \<^verbatim>\<open>undefined\<close> or of a call of something that is no function, and the \<^verbatim>\<open>RangeError\<close> of
  a recursion that exhausts the call stack.
\<close>

datatype error = Error string | TypeError | RangeError

text \<open>An integer inside a template literal is printed in decimal.\<close>

fun string_of_nat :: "nat \<Rightarrow> string" where
  "string_of_nat n =
     (if n < 10 then [''0123456789'' ! n]
      else string_of_nat (n div 10) @ [''0123456789'' ! (n mod 10)])"

declare string_of_nat.simps [simp del]

definition string_of_int :: "int \<Rightarrow> string" where
  "string_of_int i = (if i < 0 then ''-'' @ string_of_nat (nat (- i)) else string_of_nat (nat i))"

text \<open>\<^verbatim>\<open>arr[i]\<close>: \<^verbatim>\<open>undefined\<close> (here \<open>None\<close>) outside the array.\<close>

definition at_index :: "'a list \<Rightarrow> int \<Rightarrow> 'a option" where
  "at_index arr i = (if 0 \<le> i \<and> i < int (length arr) then Some (arr ! nat i) else None)"

text \<open>
  A loop over a list of indices whose body may throw: the first error ends it.
  \<open>for_each\<close> threads a state, \<open>array_from\<close> collects the values of the callback of
  \<^verbatim>\<open>Array.from({ length }, callback)\<close> and threads the count of random calls.
\<close>

fun for_each :: "('a \<Rightarrow> 's \<Rightarrow> error + 's) \<Rightarrow> 'a list \<Rightarrow> 's \<Rightarrow> error + 's" where
  "for_each f [] s = Inr s"
| "for_each f (x # xs) s = (case f x s of Inl e \<Rightarrow> Inl e | Inr s' \<Rightarrow> for_each f xs s')"

fun array_from :: "(nat \<Rightarrow> nat \<Rightarrow> error + 'a \<times> nat) \<Rightarrow> nat list \<Rightarrow> nat \<Rightarrow> error + 'a list \<times> nat" where
  "array_from f [] k = Inr ([], k)"
| "array_from f (i # is) k =
     (case f i k of
        Inl e \<Rightarrow> Inl e
      | Inr (x, k1) \<Rightarrow>
          (case array_from f is k1 of
             Inl e \<Rightarrow> Inl e
           | Inr (xs, k2) \<Rightarrow> Inr (x # xs, k2)))"

section \<open>Boxplot groups\<close>

text \<open>
  \<^verbatim>\<open>
  export function generateBoxplot({ groups, samples, min, max }) {
    const out = [];
    for (let g = 0; g < groups; g++) {
      const arr = Array.from({ length: samples }, () => rand(min, max)).sort((a, b) => a - b);
      const q1 = arr[Math.floor(samples * 0.25)];
      const q2 = arr[Math.floor(samples * 0.5)];
      const q3 = arr[Math.floor(samples * 0.75)];
      out.push({
        name: `G${g + 1}`,
        value: [Number(arr[0].toFixed(2)), Number(q1.toFixed(2)), Number(q2.toFixed(2)),
                Number(q3.toFixed(2)), Number(arr[arr.length - 1].toFixed(2))]
      });
    }
    return out;
  }
  \<close>
  \<^verbatim>\<open>min\<close> and \<^verbatim>\<open>max\<close> are numbers. The counts \<^verbatim>\<open>groups\<close> and \<^verbatim>\<open>samples\<close> are finite
  numbers, whole or not: the loop runs while \<^verbatim>\<open>g < groups\<close>, and \<^verbatim>\<open>Array.from\<close> takes the
  length \<^verbatim>\<open>ToLength(samples)\<close>, the whole part of a positive number, capped at
  \<open>2^53 - 1\<close>; a length of \<open>2^32\<close> or more is a \<^verbatim>\<open>RangeError\<close>. \<^verbatim>\<open>toFixed\<close> of an element
  that is not there is a \<^verbatim>\<open>TypeError\<close>.
\<close>

definition ToLength :: "real \<Rightarrow> nat" where
  "ToLength x = (if x \<le> 0 then 0 else min (nat \<lfloor>x\<rfloor>) (2 ^ 53 - 1))"

fun sample :: "random_source \<Rightarrow> nat \<Rightarrow> nat \<Rightarrow> number \<Rightarrow> number \<Rightarrow> number list \<times> nat" where
  "sample R k 0 lo hi = ([], k)"
| "sample R k (Suc n) lo hi =
     (case js_rand R k lo hi of (x, k1) \<Rightarrow>
        (case sample R k1 n lo hi of (xs, k2) \<Rightarrow> (x # xs, k2)))"

text \<open>
  \<^verbatim>\<open>sort((a, b) => a - b)\<close>: an element goes behind another when the comparator is
  positive. For an array without NaN the comparator is consistent and the sorted array
  is determined: it is ascending. For an array with NaN the order is left to the
  engine; \<open>js_sort\<close> then gives the order of an insertion sort.
\<close>

fun js_insert :: "number \<Rightarrow> number list \<Rightarrow> number list" where
  "js_insert x [] = [x]"
| "js_insert x (y # ys) =
     (if positive (num_sub x y) then y # js_insert x ys else x # y # ys)"

fun js_sort :: "number list \<Rightarrow> number list" where
  "js_sort [] = []"
| "js_sort (x # xs) = js_insert x (js_sort xs)"

record box_group =
  box_name :: string
  box_value :: "number list"

definition quartiles :: "number list \<Rightarrow> real \<Rightarrow> error + number list" where
  "quartiles arr samples =
     (case (at_index arr 0,
            at_index arr \<lfloor>samples * 0.25\<rfloor>,
            at_index arr \<lfloor>samples * 0.5\<rfloor>,
            at_index arr \<lfloor>samples * 0.75\<rfloor>,
            at_index arr (int (length arr) - 1)) of
        (Some lowest, Some q1, Some q2, Some q3, Some highest) \<Rightarrow>
          Inr [toFixed_number lowest 2, toFixed_number q1 2, toFixed_number q2 2,
               toFixed_number q3 2, toFixed_number highest 2]
      | _ \<Rightarrow> Inl TypeError)"

function boxplot_loop ::
  "nat \<Rightarrow> real \<Rightarrow> real \<Rightarrow> number \<Rightarrow> number \<Rightarrow> random_source \<Rightarrow> box_group list \<Rightarrow> nat
     \<Rightarrow> error + box_group list \<times> nat" where
  "boxplot_loop g groups samples lo hi R out k =
     (if of_nat g < groups then
        (if 2 ^ 32 \<le> ToLength samples then Inl RangeError
         else
           (case sample R k (ToLength samples) lo hi of
              (drawn, k') \<Rightarrow>
                (case quartiles (js_sort drawn) samples of
                   Inl e \<Rightarrow> Inl e
                 | Inr v \<Rightarrow>
                     boxplot_loop (g + 1) groups samples lo hi R
                       (out @ [\<lparr>box_name = ''G'' @ string_of_nat (g + 1), box_value = v\<rparr>]) k')))
      else Inr (out, k))"
  by pat_completeness auto
termination
  by (relation "measure (\<lambda>(g, groups, samples, lo, hi, R, out, k). nat \<lceil>groups\<rceil> - g)")
    (auto, linarith)

declare boxplot_loop.simps [simp del]

definition generateBoxplot ::
  "real \<Rightarrow> real \<Rightarrow> number \<Rightarrow> number \<Rightarrow> random_source \<Rightarrow> nat \<Rightarrow> error + box_group list \<times> nat" where
  "generateBoxplot groups samples lo hi R k = boxplot_loop 0 groups samples lo hi R [] k"


section \<open>Funnel stages\<close>

text \<open>
  \<^verbatim>\<open>
  export function generateFunnel({ stages, startValue, drop }) {
    let current = startValue; const data = [];
    for (let i = 0; i < stages; i++) {
      data.push({ name: `Stage${i + 1}`, value: Math.round(current) });
      current *= (1 - drop * rand(0.8, 1.2));
    }
    return data;
  }
  \<close>
  The parameter \<^verbatim>\<open>drop\<close> is \<open>dropRatio\<close> here.
\<close>

record stage =
  stage_name :: string
  stage_value :: int

function funnel_loop ::
  "int \<Rightarrow> int \<Rightarrow> real \<Rightarrow> random_source \<Rightarrow> real \<Rightarrow> stage list \<Rightarrow> nat \<Rightarrow> stage list \<times> nat" where
  "funnel_loop i stages dropRatio R current data k =
     (if i < stages then
        (case rand R k 0.8 1.2 of
           (f, k') \<Rightarrow>
             funnel_loop (i + 1) stages dropRatio R (current * (1 - dropRatio * f))
               (data @ [\<lparr>stage_name = ''Stage'' @ string_of_int (i + 1),
                         stage_value = Math_round current\<rparr>]) k')
      else (data, k))"
  by pat_completeness auto
termination
  by (relation "measure (\<lambda>(i, stages, dropRatio, R, current, data, k). nat (stages - i))") auto

declare funnel_loop.simps [simp del]

definition generateFunnel ::
  "int \<Rightarrow> real \<Rightarrow> real \<Rightarrow> random_source \<Rightarrow> nat \<Rightarrow> stage list \<times> nat" where
  "generateFunnel stages startValue dropRatio R k = funnel_loop 0 stages dropRatio R startValue [] k"

section \<open>Graphs\<close>

text \<open>
  \<^verbatim>\<open>
  export function generateGraph({ nodes, extraLinks }) {
    const nodeArr = Array.from({ length: nodes },
      (_, i) => ({ id: `N${i}`, name: `Node ${i}`, value: randInt(1, 10) }));
    const links = [];
    for (let i = 1; i < nodes; i++)
      links.push({ source: `N${randInt(0, i - 1)}`, target: `N${i}`, value: randInt(1, 5) });
    for (let k = 0; k < extraLinks; k++) {
      const a = randInt(0, nodes - 1); const b = randInt(0, nodes - 1);
      if (a !== b) links.push({ source: `N${a}`, target: `N${b}`, value: randInt(1, 5) });
    }
    return { nodes: nodeArr, links };
  }
  \<close>
\<close>

record graph_node =
  node_id :: string
  node_label :: string
  node_weight :: int

record graph_link =
  link_source :: string
  link_target :: string
  link_weight :: int

record graph =
  graph_nodes :: "graph_node list"
  graph_links :: "graph_link list"

fun node_array :: "random_source \<Rightarrow> nat list \<Rightarrow> nat \<Rightarrow> graph_node list \<times> nat" where
  "node_array R [] k = ([], k)"
| "node_array R (i # is) k =
     (case randInt R k 1 10 of
        (v, k1) \<Rightarrow>
          (case node_array R is k1 of
             (ns, k2) \<Rightarrow>
               (\<lparr>node_id = ''N'' @ string_of_nat i, node_label = ''Node '' @ string_of_nat i,
                 node_weight = v\<rparr> # ns, k2)))"

function spanning_loop ::
  "int \<Rightarrow> int \<Rightarrow> random_source \<Rightarrow> graph_link list \<Rightarrow> nat \<Rightarrow> graph_link list \<times> nat" where
  "spanning_loop i nodes R links k =
     (if i < nodes then
        (case randInt R k 0 (of_int i - 1) of
           (src, k1) \<Rightarrow>
             (case randInt R k1 1 5 of
                (v, k2) \<Rightarrow>
                  spanning_loop (i + 1) nodes R
                    (links @ [\<lparr>link_source = ''N'' @ string_of_int src,
                               link_target = ''N'' @ string_of_int i, link_weight = v\<rparr>]) k2))
      else (links, k))"
  by pat_completeness auto
termination
  by (relation "measure (\<lambda>(i, nodes, R, links, k). nat (nodes - i))") auto

declare spanning_loop.simps [simp del]

function extra_loop ::
  "int \<Rightarrow> int \<Rightarrow> int \<Rightarrow> random_source \<Rightarrow> graph_link list \<Rightarrow> nat \<Rightarrow> graph_link list \<times> nat" where
  "extra_loop j extraLinks nodes R links k =
     (if j < extraLinks then
        (case randInt R k 0 (of_int nodes - 1) of
           (a, k1) \<Rightarrow>
             (case randInt R k1 0 (of_int nodes - 1) of
                (b, k2) \<Rightarrow>
                  (if a \<noteq> b then
                     (case randInt R k2 1 5 of
                        (v, k3) \<Rightarrow>
                          extra_loop (j + 1) extraLinks nodes R
                            (links @ [\<lparr>link_source = ''N'' @ string_of_int a,
                                       link_target = ''N'' @ string_of_int b, link_weight = v\<rparr>]) k3)
                   else extra_loop (j + 1) extraLinks nodes R links k2)))
      else (links, k))"
  by pat_completeness auto
termination
  by (relation "measure (\<lambda>(j, extraLinks, nodes, R, links, k). nat (extraLinks - j))") auto

declare extra_loop.simps [simp del]

definition generateGraph :: "int \<Rightarrow> int \<Rightarrow> random_source \<Rightarrow> nat \<Rightarrow> graph \<times> nat" where
  "generateGraph nodes extraLinks R k =
     (case node_array R [0..<nat nodes] k of
        (nodeArr, k1) \<Rightarrow>
          (case spanning_loop 1 nodes R [] k1 of
             (links, k2) \<Rightarrow>
               (case extra_loop 0 extraLinks nodes R links k2 of
                  (links', k3) \<Rightarrow> (\<lparr>graph_nodes = nodeArr, graph_links = links'\<rparr>, k3))))"

text \<open>
  Reachability through the link list: the links read as directed edges from
  \<^verbatim>\<open>source\<close> to \<^verbatim>\<open>target\<close>.
\<close>

definition link_edges :: "graph_link list \<Rightarrow> (string \<times> string) set" where
  "link_edges links = set (map (\<lambda>l. (link_source l, link_target l)) links)"

definition reachable :: "graph_link list \<Rightarrow> string \<Rightarrow> string \<Rightarrow> bool" where
  "reachable links a b = ((a, b) \<in> (link_edges links)\<^sup>*)"

section \<open>Trees\<close>

text \<open>
  \<^verbatim>\<open>
  function buildTree(depth, breadth, level = 0, prefix = 'T') {
    if (depth === 0) return [];
    return Array.from({ length: breadth }, (_, i) => {
      const name = `${prefix}${level}-${i}`;
      const children = buildTree(depth - 1, breadth, level + 1, prefix);
      const value = children.length ? undefined : randInt(10, 100);
      const node = { name };
      if (children.length) node.children = children;
      if (value !== undefined) node.value = value;
      return node;
    });
  }
  export function generateTree({ depth, breadth }) {
    return { name: 'root', children: buildTree(depth, breadth) };
  }
  \<close>
  A node is an object with a name and the optional fields \<^verbatim>\<open>children\<close> and \<^verbatim>\<open>value\<close>.
  With \<^verbatim>\<open>breadth\<close> below one the callback never runs. With a negative \<^verbatim>\<open>depth\<close> and a
  positive \<^verbatim>\<open>breadth\<close> the recursion never meets \<^verbatim>\<open>depth === 0\<close> and ends in the
  \<^verbatim>\<open>RangeError\<close> of the exhausted stack.
\<close>

datatype tree_node = Node (node_name: string) (node_children: "tree_node list option") (node_val: "int option")

function buildTree ::
  "int \<Rightarrow> int \<Rightarrow> int \<Rightarrow> string \<Rightarrow> random_source \<Rightarrow> nat \<Rightarrow> error + tree_node list \<times> nat" where
  "buildTree depth breadth level prefix R k =
     (if depth = 0 then Inr ([], k)
      else if breadth \<le> 0 then Inr ([], k)
      else if depth < 0 then Inl RangeError
      else
        array_from
          (\<lambda>i k.
             (case buildTree (depth - 1) breadth (level + 1) prefix R k of
                Inl e \<Rightarrow> Inl e
              | Inr (children, k1) \<Rightarrow>
                  (if children \<noteq> [] then
                     Inr (Node (prefix @ string_of_int level @ ''-'' @ string_of_nat i)
                            (Some children) None, k1)
                   else
                     (case randInt R k1 10 100 of
                        (v, k2) \<Rightarrow>
                          Inr (Node (prefix @ string_of_int level @ ''-'' @ string_of_nat i)
                                 None (Some v), k2)))))
          [0..<nat breadth] k)"
  by pat_completeness auto
termination
  by (relation "measure (\<lambda>(depth, breadth, level, prefix, R, k). nat depth)") auto

declare buildTree.simps [simp del]

definition generateTree :: "int \<Rightarrow> int \<Rightarrow> random_source \<Rightarrow> nat \<Rightarrow> error + tree_node \<times> nat" where
  "generateTree depth breadth R k =
     (case buildTree depth breadth 0 ''T'' R k of
        Inl e \<Rightarrow> Inl e
      | Inr (children, k') \<Rightarrow> Inr (Node ''root'' (Some children) None, k'))"

text \<open>The children of a node (none when the field is absent), and what a leaf is.\<close>

definition children_of :: "tree_node \<Rightarrow> tree_node list" where
  "children_of n = (case node_children n of None \<Rightarrow> [] | Some cs \<Rightarrow> cs)"

definition is_leaf :: "tree_node \<Rightarrow> bool" where
  "is_leaf n = (node_children n = None \<and> node_val n \<noteq> None)"

section \<open>Dispatch by archetype name\<close>

text \<open>
  \<^verbatim>\<open>
  const GENERATORS = {
    line: generateLine, bar: generateBar, pie: generatePie, scatter: generateScatter,
    candlestick: generateCandlestick, radar: generateRadar, boxplot: generateBoxplot,
    heatmap: generateHeatmap, graph: generateGraph, tree: generateTree,
    treemap: generateTreemap, sunburst: generateSunburst, sankey: generateSankey,
    funnel: generateFunnel, gauge: generateGauge, pictorialBar: generatePictorialBar,
    calendar: generateCalendar, matrix: generateMatrix
  };
  export function buildMock(type, config = {}) {
    const gen = GENERATORS[type];
    if (!gen) throw new Error(`Unknown mock type: ${type}`);
    return gen(config);
  }
  \<close>
  The table holds references to the generator functions; \<^verbatim>\<open>generateMatrix\<close> is
  \<^verbatim>\<open>generateHeatmap\<close>, and \<^verbatim>\<open>generateTreemap\<close> and \<^verbatim>\<open>generateSunburst\<close> are
  \<^verbatim>\<open>generateTree\<close>. What a generator returns for a configuration does not matter to the
  dispatch: it is the parameter \<open>run\<close> of \<open>buildMock\<close>, a function of the generator, the
  configuration and the random source that returns a result or throws.
\<close>

datatype generator =
    GenLine | GenBar | GenPie | GenScatter | GenCandlestick | GenRadar | GenBoxplot
  | GenHeatmap | GenGraph | GenTree | GenSankey | GenFunnel | GenGauge | GenPictorialBar
  | GenCalendar

definition GENERATORS :: "(string \<times> generator) list" where
  "GENERATORS =
     [(''line'', GenLine), (''bar'', GenBar), (''pie'', GenPie), (''scatter'', GenScatter),
      (''candlestick'', GenCandlestick), (''radar'', GenRadar), (''boxplot'', GenBoxplot),
      (''heatmap'', GenHeatmap), (''graph'', GenGraph), (''tree'', GenTree),
      (''treemap'', GenTree), (''sunburst'', GenTree), (''sankey'', GenSankey),
      (''funnel'', GenFunnel), (''gauge'', GenGauge), (''pictorialBar'', GenPictorialBar),
      (''calendar'', GenCalendar), (''matrix'', GenHeatmap)]"

text \<open>
  \<^verbatim>\<open>GENERATORS\<close> is an object literal, so \<^verbatim>\<open>GENERATORS[type]\<close> looks \<^verbatim>\<open>type\<close> up among
  its own properties first and then among those it inherits from \<^verbatim>\<open>Object.prototype\<close>:
  the methods listed here and the accessor \<^verbatim>\<open>__proto__\<close>, all of them truthy.
\<close>

definition Object_prototype :: "string list" where
  "Object_prototype =
     [''constructor'', ''__defineGetter__'', ''__defineSetter__'', ''hasOwnProperty'',
      ''__lookupGetter__'', ''__lookupSetter__'', ''isPrototypeOf'', ''propertyIsEnumerable'',
      ''toString'', ''valueOf'', ''__proto__'', ''toLocaleString'']"

datatype property = Own generator | Inherited string

definition get_property :: "string \<Rightarrow> property option" where
  "get_property type =
     (case map_of GENERATORS type of
        Some g \<Rightarrow> Some (Own g)
      | None \<Rightarrow> (if type \<in> set Object_prototype then Some (Inherited type) else None))"

text \<open>
  A configuration is an object with numeric fields; \<^verbatim>\<open>{}\<close> is the empty list. What
  \<open>buildMock\<close> returns is a generator's result or, through an inherited property, a
  string or the configuration object.
\<close>

type_synonym config = "(string \<times> real) list"

datatype 'r js_value = Generated 'r | String string | Object config

text \<open>
  \<^verbatim>\<open>gen(config)\<close> for an inherited \<^verbatim>\<open>gen\<close>, called without a receiver (the module is
  strict code, \<^verbatim>\<open>this\<close> is \<^verbatim>\<open>undefined\<close>): \<^verbatim>\<open>Object.prototype.toString\<close> answers
  \<^verbatim>\<open>"[object Undefined]"\<close>, the constructor \<^verbatim>\<open>Object\<close> returns the object it is given,
  the other methods convert \<^verbatim>\<open>this\<close> to an object and throw a \<^verbatim>\<open>TypeError\<close>, and
  \<^verbatim>\<open>__proto__\<close> is an object, not a function.
\<close>

definition call_inherited :: "string \<Rightarrow> config \<Rightarrow> error + 'r js_value" where
  "call_inherited name config =
     (if name = ''toString'' then Inr (String ''[object Undefined]'')
      else if name = ''constructor'' then Inr (Object config)
      else Inl TypeError)"

definition buildMock ::
  "(generator \<Rightarrow> config \<Rightarrow> random_source \<Rightarrow> nat \<Rightarrow> error + 'r \<times> nat)
     \<Rightarrow> string \<Rightarrow> config \<Rightarrow> random_source \<Rightarrow> nat \<Rightarrow> error + 'r js_value \<times> nat" where
  "buildMock run type config R k =
     (case get_property type of
        None \<Rightarrow> Inl (Error (''Unknown mock type: '' @ type))
      | Some (Own gen) \<Rightarrow>
          (case run gen config R k of
             Inl e \<Rightarrow> Inl e
           | Inr (r, k') \<Rightarrow> Inr (Generated r, k'))
      | Some (Inherited name) \<Rightarrow>
          (case call_inherited name config of
             Inl e \<Rightarrow> Inl e
           | Inr v \<Rightarrow> Inr (v, k)))"

text \<open>The eighteen registered archetype names.\<close>

definition archetypes :: "string list" where
  "archetypes = map fst GENERATORS"

text \<open>
  \<^verbatim>\<open>
  export function buildMockBundle(requests = []) {
    const bundle = {};
    requests.forEach(r => {
      if (typeof r === 'string') bundle[r] = buildMock(r, {});
      else if (r && typeof r === 'object')
        bundle[r.type] = buildMock(r.type, r.config || {});
    });
    return bundle;
  }
  \<close>
  A request is a string, an object (with its fields \<^verbatim>\<open>type\<close> and \<^verbatim>\<open>config\<close>, each of
  them possibly \<^verbatim>\<open>undefined\<close>), or anything else (\<^verbatim>\<open>null\<close>, a number, ...). An
  \<^verbatim>\<open>undefined\<close> type is looked up and printed as the string \<^verbatim>\<open>undefined\<close>. The bundle is
  a map from property names to values.
\<close>

datatype request = Str string | Obj "string option" "config option" | Other

definition type_key :: "string option \<Rightarrow> string" where
  "type_key t = (case t of None \<Rightarrow> ''undefined'' | Some s \<Rightarrow> s)"

definition config_or_empty :: "config option \<Rightarrow> config" where
  "config_or_empty c = (case c of None \<Rightarrow> [] | Some cfg \<Rightarrow> cfg)"

fun buildMockBundle_loop ::
  "(generator \<Rightarrow> config \<Rightarrow> random_source \<Rightarrow> nat \<Rightarrow> error + 'r \<times> nat)
     \<Rightarrow> request list \<Rightarrow> random_source \<Rightarrow> (string \<rightharpoonup> 'r js_value) \<Rightarrow> nat
     \<Rightarrow> error + (string \<rightharpoonup> 'r js_value) \<times> nat" where
  "buildMockBundle_loop run [] R bundle k = Inr (bundle, k)"
| "buildMockBundle_loop run (Str r # rs) R bundle k =
     (case buildMock run r [] R k of
        Inl e \<Rightarrow> Inl e
      | Inr (v, k') \<Rightarrow> buildMockBundle_loop run rs R (bundle(r \<mapsto> v)) k')"
| "buildMockBundle_loop run (Obj t c # rs) R bundle k =
     (case buildMock run (type_key t) (config_or_empty c) R k of
        Inl e \<Rightarrow> Inl e
      | Inr (v, k') \<Rightarrow> buildMockBundle_loop run rs R (bundle(type_key t \<mapsto> v)) k')"
| "buildMockBundle_loop run (Other # rs) R bundle k = buildMockBundle_loop run rs R bundle k"

definition buildMockBundle ::
  "(generator \<Rightarrow> config \<Rightarrow> random_source \<Rightarrow> nat \<Rightarrow> error + 'r \<times> nat)
     \<Rightarrow> request list \<Rightarrow> random_source \<Rightarrow> nat \<Rightarrow> error + (string \<rightharpoonup> 'r js_value) \<times> nat" where
  "buildMockBundle run requests R k = buildMockBundle_loop run requests R Map.empty k"

text \<open>
  The specification's reading of a request: the type and the configuration \<open>buildMock\<close> is
  called with, or nothing for an entry that is skipped.
\<close>

fun recognized :: "request \<Rightarrow> (string \<times> config) option" where
  "recognized (Str r) = Some (r, [])"
| "recognized (Obj t c) = Some (type_key t, config_or_empty c)"
| "recognized Other = None"

section \<open>Drawing on the plot surface\<close>

text \<open>
  The plugins of \<^verbatim>\<open>src/components/UPlotDemo.jsx\<close> draw on a 2D canvas context. The
  context is a record of the style properties the plugins set and of the operations
  drawn so far. The text of \<^verbatim>\<open>fillText\<close> is kept as the parts of its template literal,
  the numbers not printed.
\<close>

datatype text_part = Chars string | Number_toFixed real nat | Number_toString real

datatype draw_op =
    FillRect string real real real real
  | FillText string "text_part list" real real

record canvas =
  fillStyle :: string
  font :: string
  textAlign :: string
  textBaseline :: string
  drawn :: "draw_op list"

definition fillRect :: "real \<Rightarrow> real \<Rightarrow> real \<Rightarrow> real \<Rightarrow> canvas \<Rightarrow> canvas" where
  "fillRect x y w h ctx = ctx\<lparr>drawn := drawn ctx @ [FillRect (fillStyle ctx) x y w h]\<rparr>"

definition fillText :: "text_part list \<Rightarrow> real \<Rightarrow> real \<Rightarrow> canvas \<Rightarrow> canvas" where
  "fillText txt x y ctx = ctx\<lparr>drawn := drawn ctx @ [FillText (fillStyle ctx) txt x y]\<rparr>"

definition palette :: "string list" where
  "palette = [''#2563eb'', ''#16a34a'', ''#dc2626'', ''#9333ea'', ''#f59e0b'', ''#0d9488'',
              ''#be123c'', ''#0891b2'', ''#f472b6'', ''#475569'']"

text \<open>
  The plot \<^verbatim>\<open>u\<close> a plugin is handed: its data (an array of arrays, \<^verbatim>\<open>null\<close> for a
  missing value), the length of its series array, the bounding box of the plotting
  area, and \<^verbatim>\<open>u.valToPos(value, scale, true)\<close>, the value-to-pixel transform that the
  chart library owns.
\<close>

record uplot =
  u_data :: "real option list list"
  u_series_length :: nat
  valToPos :: "real \<Rightarrow> string \<Rightarrow> real"
  bbox_left :: real
  bbox_top :: real
  bbox_width :: real
  bbox_height :: real

text \<open>
  \<^verbatim>\<open>
  draw: (u) => {
    const { ctx, data, series } = u;
    const seriesCount = series.length - 1;
    if (seriesCount <= 0) return;
    const xVals = data[0];
    const len = xVals.length;
    if (len === 0) return;
    let gap = 60;
    if (len > 1) {
      gap = u.valToPos(1, 'x', true) - u.valToPos(0, 'x', true);
    }
    const groupWidth = gap * 0.8;
    const barWidth = groupWidth / seriesCount;
    for (let i = 0; i < len; i++) {
      const xPos = u.valToPos(i, 'x', true);
      const leftStart = xPos - groupWidth / 2;
      for (let s = 1; s <= seriesCount; s++) {
        const val = data[s][i];
        if (val == null) continue;
        const yPos = u.valToPos(val, 'y', true);
        const yZero = u.valToPos(0, 'y', true);
        const height = Math.abs(yZero - yPos);
        ctx.fillStyle = palette[(s-1) % palette.length];
        ctx.fillRect(
          Math.round(leftStart + (s-1) * barWidth),
          Math.round(Math.min(yPos, yZero)),
          Math.round(barWidth - 2),
          Math.round(height)
        );
      }
    }
  }
  \<close>
  Reading \<^verbatim>\<open>data[0].length\<close> or \<^verbatim>\<open>data[s][i]\<close> of a row that is not there is a
  \<^verbatim>\<open>TypeError\<close>.
\<close>

definition bar_gap :: "uplot \<Rightarrow> nat \<Rightarrow> real" where
  "bar_gap u len = (if 1 < len then valToPos u 1 ''x'' - valToPos u 0 ''x'' else 60)"

definition bar_series ::
  "uplot \<Rightarrow> real \<Rightarrow> real \<Rightarrow> nat \<Rightarrow> nat \<Rightarrow> canvas \<Rightarrow> error + canvas" where
  "bar_series u leftStart barWidth i s ctx =
     (case at_index (u_data u) (int s) of
        None \<Rightarrow> Inl TypeError
      | Some row \<Rightarrow>
          (case at_index row (int i) of
             None \<Rightarrow> Inr ctx
           | Some None \<Rightarrow> Inr ctx
           | Some (Some v) \<Rightarrow>
               (let yPos = valToPos u v ''y'';
                    yZero = valToPos u 0 ''y'';
                    height = \<bar>yZero - yPos\<bar>;
                    ctx' = ctx\<lparr>fillStyle := palette ! ((s - 1) mod length palette)\<rparr>
                in Inr (fillRect
                     (of_int (Math_round (leftStart + of_nat (s - 1) * barWidth)))
                     (of_int (Math_round (min yPos yZero)))
                     (of_int (Math_round (barWidth - 2)))
                     (of_int (Math_round height)) ctx'))))"

definition bar_category ::
  "uplot \<Rightarrow> real \<Rightarrow> real \<Rightarrow> nat \<Rightarrow> nat \<Rightarrow> canvas \<Rightarrow> error + canvas" where
  "bar_category u groupWidth barWidth seriesCount i ctx =
     (let xPos = valToPos u (of_nat i) ''x'';
          leftStart = xPos - groupWidth / 2
      in for_each (bar_series u leftStart barWidth i) [1..<Suc seriesCount] ctx)"

definition barPlugin_draw :: "uplot \<Rightarrow> canvas \<Rightarrow> error + canvas" where
  "barPlugin_draw u ctx =
     (let seriesCount = int (u_series_length u) - 1
      in if seriesCount \<le> 0 then Inr ctx
         else
           (case at_index (u_data u) 0 of
              None \<Rightarrow> Inl TypeError
            | Some xVals \<Rightarrow>
                (let len = length xVals
                 in if len = 0 then Inr ctx
                    else
                      (let gap = bar_gap u len;
                           groupWidth = gap * 0.8;
                           barWidth = groupWidth / of_int seriesCount
                       in for_each (bar_category u groupWidth barWidth (nat seriesCount))
                            [0..<len] ctx))))"

text \<open>
  The specification's reading of one bar, for \<open>S\<close> series: the group width is 80% of
  one category's pixel span, the bar width is the group width divided by \<open>S\<close>, and the
  bar of series \<open>s\<close> (counted from 1) starts at the left edge of the group of its
  category \<open>i\<close> plus \<open>s - 1\<close> bar widths; \<open>v\<close> is the value drawn. The coordinates are
  rounded to whole pixels and the width is the bar width less 2 pixels, as in the code.
\<close>

definition group_left :: "uplot \<Rightarrow> nat \<Rightarrow> real" where
  "group_left u i =
     valToPos u (of_nat i) ''x'' - (valToPos u 1 ''x'' - valToPos u 0 ''x'') * 0.8 / 2"

definition group_width :: "uplot \<Rightarrow> real" where
  "group_width u = (valToPos u 1 ''x'' - valToPos u 0 ''x'') * 0.8"

definition bar_rectangle :: "uplot \<Rightarrow> nat \<Rightarrow> nat \<Rightarrow> nat \<Rightarrow> real \<Rightarrow> draw_op" where
  "bar_rectangle u S i s v =
     FillRect (palette ! ((s - 1) mod 10))
       (of_int (Math_round (group_left u i + of_nat (s - 1) * (group_width u / of_nat S))))
       (of_int (Math_round (min (valToPos u v ''y'') (valToPos u 0 ''y''))))
       (of_int (Math_round (group_width u / of_nat S - 2)))
       (of_int (Math_round \<bar>valToPos u 0 ''y'' - valToPos u v ''y''\<bar>))"

text \<open>
  The horizontal extent a filled rectangle covers on the canvas (a negative width
  extends it to the left of \<open>x\<close>), and when two rectangles overlap in x.
\<close>

fun x_extent :: "draw_op \<Rightarrow> real \<times> real" where
  "x_extent (FillRect c x y w h) = (min x (x + w), max x (x + w))"
| "x_extent (FillText c t x y) = (x, x)"

definition overlap_x :: "draw_op \<Rightarrow> draw_op \<Rightarrow> bool" where
  "overlap_x a b = (fst (x_extent a) < snd (x_extent b) \<and> fst (x_extent b) < snd (x_extent a))"

text \<open>
  \<^verbatim>\<open>
  function gaugePlugin(rawData) { ...
    draw: (u) => {
      const { ctx, bbox } = u;
      const { min, max, value } = rawData;
      const percent = (value - min) / (max - min);
      const barHeight = 30;
      const y = bbox.top + bbox.height / 2 - barHeight / 2;
      ctx.fillStyle = '#f0f0f0';
      ctx.fillRect(bbox.left, y, bbox.width, barHeight);
      ctx.fillStyle = palette[0];
      ctx.fillRect(bbox.left, y, bbox.width * percent, barHeight);
      ctx.fillStyle = '#333';
      ctx.font = '14px sans-serif';
      ctx.textAlign = 'center';
      ctx.textBaseline = 'middle';
      ctx.fillText(`${value.toFixed(1)} / ${max}`, bbox.left + bbox.width / 2, y + barHeight / 2);
    }
  }
  \<close>
  With \<^verbatim>\<open>max\<close> equal to \<^verbatim>\<open>min\<close> the division gives no finite number, and the canvas
  ignores a \<^verbatim>\<open>fillRect\<close> with such an argument.
\<close>

record gauge =
  gauge_value :: real
  gauge_min :: real
  gauge_max :: real

definition gaugePlugin_draw :: "gauge \<Rightarrow> uplot \<Rightarrow> canvas \<Rightarrow> canvas" where
  "gaugePlugin_draw rawData u ctx =
     (let barHeight = 30;
          y = bbox_top u + bbox_height u / 2 - barHeight / 2;
          ctx1 = fillRect (bbox_left u) y (bbox_width u) barHeight (ctx\<lparr>fillStyle := ''#f0f0f0''\<rparr>);
          ctx2 = ctx1\<lparr>fillStyle := palette ! 0\<rparr>;
          ctx3 =
            (if gauge_max rawData = gauge_min rawData then ctx2
             else
               (let percent =
                      (gauge_value rawData - gauge_min rawData) /
                      (gauge_max rawData - gauge_min rawData)
                in fillRect (bbox_left u) y (bbox_width u * percent) barHeight ctx2));
          ctx4 = ctx3\<lparr>fillStyle := ''#333'', font := ''14px sans-serif'', textAlign := ''center'',
                      textBaseline := ''middle''\<rparr>
      in fillText [Number_toFixed (gauge_value rawData) 1, Chars '' / '',
                   Number_toString (gauge_max rawData)]
           (bbox_left u + bbox_width u / 2) (y + barHeight / 2) ctx4)"

section \<open>Rounding is monotone\<close>

lemma floor_half_bound:
  fixes x :: real and b :: int
  assumes "x < of_int b"
  shows "\<lfloor>x + 1 / 2\<rfloor> \<le> b"
proof -
  have "x + 1 / 2 < of_int (b + 1)" using assms by simp
  then have "\<lfloor>x + 1 / 2\<rfloor> < b + 1" by (simp only: floor_less_iff)
  then show ?thesis by simp
qed

lemma round_pos_mono:
  fixes x y :: real
  assumes "x \<le> y"
  shows "of_int \<lfloor>x * 10 ^ d + 1 / 2\<rfloor> / (10 ^ d :: real) \<le> of_int \<lfloor>y * 10 ^ d + 1 / 2\<rfloor> / 10 ^ d"
proof -
  have "x * 10 ^ d + 1 / 2 \<le> y * 10 ^ d + 1 / 2" using assms by simp
  then have "\<lfloor>x * 10 ^ d + 1 / 2\<rfloor> \<le> \<lfloor>y * 10 ^ d + 1 / 2\<rfloor>" by (rule floor_mono)
  then show ?thesis by (simp add: divide_right_mono)
qed

lemma round_pos_nonneg:
  fixes x :: real
  assumes "0 \<le> x"
  shows "0 \<le> of_int \<lfloor>x * 10 ^ d + 1 / 2\<rfloor> / (10 ^ d :: real)"
proof -
  have "0 \<le> x * 10 ^ d + 1 / 2" using assms by simp
  then have "0 \<le> \<lfloor>x * 10 ^ d + 1 / 2\<rfloor>" by simp
  then show ?thesis by simp
qed

lemma round_pos_big:
  fixes x :: real
  assumes "x < 10 ^ 21"
  shows "of_int \<lfloor>x * 10 ^ d + 1 / 2\<rfloor> / (10 ^ d :: real) \<le> 10 ^ 21"
proof -
  have "x * 10 ^ d < 10 ^ 21 * 10 ^ d" using assms by simp
  then have "x * 10 ^ d < of_int (10 ^ 21 * 10 ^ d)" by simp
  then have "\<lfloor>x * 10 ^ d + 1 / 2\<rfloor> \<le> 10 ^ 21 * 10 ^ d" by (rule floor_half_bound)
  then have "(of_int \<lfloor>x * 10 ^ d + 1 / 2\<rfloor> :: real) \<le> of_int (10 ^ 21 * 10 ^ d)"
    by (simp only: of_int_le_iff)
  then have "(of_int \<lfloor>x * 10 ^ d + 1 / 2\<rfloor> :: real) \<le> 10 ^ 21 * 10 ^ d" by simp
  then show ?thesis by (simp add: pos_divide_le_eq)
qed

lemma toFixed_nonneg: "0 \<le> x \<Longrightarrow> 0 \<le> toFixed x d"
  by (simp add: toFixed_def round_pos_nonneg)

lemma toFixed_nonpos: "x < 0 \<Longrightarrow> toFixed x d \<le> 0"
  using round_pos_nonneg [of "- x" d] by (simp add: toFixed_def)

lemma toFixed_mono:
  assumes "x \<le> y"
  shows "toFixed x d \<le> toFixed y d"
proof (cases "0 \<le> x")
  case True
  then have y: "0 \<le> y" using assms by simp
  show ?thesis
  proof (cases "10 ^ 21 \<le> x")
    case True
    then show ?thesis using assms \<open>0 \<le> x\<close> y by (simp add: toFixed_def)
  next
    case False
    then have xs: "x < 10 ^ 21" by simp
    show ?thesis
    proof (cases "10 ^ 21 \<le> y")
      case True
      then show ?thesis
        using round_pos_big [OF xs, of d] \<open>0 \<le> x\<close> y xs by (simp add: toFixed_def)
    next
      case False
      then show ?thesis
        using round_pos_mono [OF assms, of d] \<open>0 \<le> x\<close> y xs by (simp add: toFixed_def)
    qed
  qed
next
  case False
  then have xn: "x < 0" by simp
  show ?thesis
  proof (cases "0 \<le> y")
    case True
    then show ?thesis using toFixed_nonpos [OF xn, of d] toFixed_nonneg [OF True, of d] by simp
  next
    case False
    then have yn: "y < 0" by simp
    have le: "- y \<le> - x" using assms by simp
    show ?thesis
    proof (cases "10 ^ 21 \<le> - y")
      case True
      then show ?thesis using assms xn yn by (simp add: toFixed_def)
    next
      case False
      then have ys: "- y < 10 ^ 21" by simp
      show ?thesis
      proof (cases "10 ^ 21 \<le> - x")
        case True
        then show ?thesis
          using round_pos_big [OF ys, of d] xn yn ys by (simp add: toFixed_def)
      next
        case False
        then show ?thesis
          using round_pos_mono [OF le, of d] xn yn ys by (simp add: toFixed_def)
      qed
    qed
  qed
qed

lemma toFixed_one: "toFixed 1 2 = 1"
  by (simp add: toFixed_def)

lemma Math_round_mono: "x \<le> y \<Longrightarrow> Math_round x \<le> Math_round y"
  by (simp add: Math_round_def floor_mono)

section \<open>Doubles: order, range and rounding\<close>

lemma threshold_large: "2 ^ 1023 < overflow_threshold"
  by (simp add: overflow_threshold_def)

lemma threshold_pos: "0 < overflow_threshold"
proof -
  have "(0 :: real) < 2 ^ 1023" by simp
  then show ?thesis using threshold_large by (rule less_trans)
qed

lemma rounded_in_range: "\<bar>x\<bar> < overflow_threshold \<Longrightarrow> rounded x = Finite x"
  by (auto simp: rounded_def)

lemma rounded_not_NaN: "rounded x \<noteq> NaN"
  by (simp add: rounded_def)

lemma in_range_rounded: "in_range (rounded x)"
  using threshold_pos by (auto simp: rounded_def in_range_def)

lemma num_le_refl: "a \<noteq> NaN \<Longrightarrow> num_le a a"
  by (cases a) simp_all

lemma num_le_trans: "num_le a b \<Longrightarrow> num_le b c \<Longrightarrow> num_le a c"
  by (cases a; cases b; cases c) simp_all

lemma num_le_total: "a \<noteq> NaN \<Longrightarrow> b \<noteq> NaN \<Longrightarrow> \<not> num_le a b \<Longrightarrow> num_le b a"
  by (cases a; cases b) simp_all

lemma num_le_not_NaN: "num_le a b \<Longrightarrow> a \<noteq> NaN \<and> b \<noteq> NaN"
  by (cases a; cases b) simp_all

lemma Math_max_upper:
  assumes "a \<noteq> NaN" "b \<noteq> NaN"
  shows "Math_max a b \<noteq> NaN" "num_le a (Math_max a b)" "num_le b (Math_max a b)"
  using assms num_le_total [of a b] by (auto simp: Math_max_def num_le_refl)

lemma Math_min_lower:
  assumes "a \<noteq> NaN" "b \<noteq> NaN"
  shows "Math_min a b \<noteq> NaN" "num_le (Math_min a b) a" "num_le (Math_min a b) b"
  using assms num_le_total [of a b] by (auto simp: Math_min_def num_le_refl)

lemma Math_max_least: "num_le a c \<Longrightarrow> num_le b c \<Longrightarrow> num_le (Math_max a b) c"
  using num_le_not_NaN [of a c] num_le_not_NaN [of b c] by (auto simp: Math_max_def)

lemma Math_min_greatest: "num_le c a \<Longrightarrow> num_le c b \<Longrightarrow> num_le c (Math_min a b)"
  using num_le_not_NaN [of c a] num_le_not_NaN [of c b] by (auto simp: Math_min_def)

lemma in_range_Math_max: "in_range a \<Longrightarrow> in_range b \<Longrightarrow> in_range (Math_max a b)"
  by (auto simp: Math_max_def in_range_def)

lemma in_range_Math_min: "in_range a \<Longrightarrow> in_range b \<Longrightarrow> in_range (Math_min a b)"
  by (auto simp: Math_min_def in_range_def)

lemma num_add_finite_not_NaN: "a \<noteq> NaN \<Longrightarrow> num_add a (Finite d) \<noteq> NaN"
  by (cases a) (simp_all add: rounded_not_NaN)

lemma in_range_num_add: "in_range (num_add a (Finite d))"
  by (cases a) (simp_all add: in_range_rounded, simp_all add: in_range_def)

lemma num_add_nonneg:
  assumes "a \<noteq> NaN" "in_range a" "0 \<le> d"
  shows "num_le a (num_add a (Finite d))"
proof (cases a)
  case (Finite x)
  then have "- overflow_threshold < x + d" using assms(2,3) by (simp add: in_range_def)
  then show ?thesis using Finite assms(3) by (simp add: rounded_def)
qed (use assms in simp_all)

lemma num_sub_nonneg:
  assumes "a \<noteq> NaN" "in_range a" "0 \<le> d"
  shows "num_le (num_sub a (Finite d)) a"
proof (cases a)
  case (Finite x)
  then have "x - d < overflow_threshold" using assms(2,3) by (simp add: in_range_def)
  then show ?thesis using Finite assms(3) by (simp add: num_sub_def rounded_def)
qed (use assms in \<open>simp_all add: num_sub_def\<close>)

lemma toFixed_number_mono:
  assumes "num_le a b"
  shows "num_le (toFixed_number a d) (toFixed_number b d)"
  using assms by (cases a; cases b) (simp_all add: toFixed_number_def toFixed_mono)

lemma toFixed_number_not_NaN: "a \<noteq> NaN \<Longrightarrow> toFixed_number a d \<noteq> NaN"
  by (cases a) (simp_all add: toFixed_number_def)

text \<open>
  A draw between two finite bounds whose difference is finite is the finite number
  that \<open>rand\<close> computes on the reals, and lies between the bounds.
\<close>

lemma js_rand_finite:
  assumes "unit_interval R" "\<bar>l\<bar> < overflow_threshold" "\<bar>h\<bar> < overflow_threshold"
    and "\<bar>h - l\<bar> < overflow_threshold"
  shows "js_rand R k (Finite l) (Finite h) = (Finite (R k * (h - l) + l), Suc k)"
    and "min l h \<le> R k * (h - l) + l" and "R k * (h - l) + l \<le> max l h"
proof -
  have u: "0 \<le> R k" "R k < 1" using assms(1) by (simp_all add: unit_interval_def)
  have "\<bar>R k * (h - l)\<bar> = R k * \<bar>h - l\<bar>" using u by (simp add: abs_mult)
  also have "\<dots> \<le> 1 * \<bar>h - l\<bar>" using u by (intro mult_right_mono) simp_all
  finally have p: "\<bar>R k * (h - l)\<bar> < overflow_threshold" using assms(4) by simp
  show lo: "min l h \<le> R k * (h - l) + l"
  proof (cases "l \<le> h")
    case True
    then have "0 \<le> R k * (h - l)" using u by simp
    then show ?thesis using True by simp
  next
    case False
    then have "R k * (l - h) \<le> 1 * (l - h)" using u by (intro mult_right_mono) simp_all
    then show ?thesis using False by (simp add: algebra_simps)
  qed
  show hi: "R k * (h - l) + l \<le> max l h"
  proof (cases "l \<le> h")
    case True
    then have "R k * (h - l) \<le> 1 * (h - l)" using u by (intro mult_right_mono) simp_all
    then show ?thesis using True by simp
  next
    case False
    then have "0 \<le> R k * (l - h)" using u by simp
    then show ?thesis using False by (simp add: algebra_simps)
  qed
  have s: "\<bar>R k * (h - l) + l\<bar> < overflow_threshold" using lo hi assms(2,3) by linarith
  show "js_rand R k (Finite l) (Finite h) = (Finite (R k * (h - l) + l), Suc k)"
    using assms(4) p s by (simp add: js_rand_def num_sub_def rounded_in_range)
qed

lemma js_rand_is_rand:
  assumes "unit_interval R" "\<bar>l\<bar> < overflow_threshold" "\<bar>h\<bar> < overflow_threshold"
    and "\<bar>h - l\<bar> < overflow_threshold"
  shows "js_rand R k (Finite l) (Finite h) = (Finite (fst (rand R k l h)), snd (rand R k l h))"
  using js_rand_finite(1) [OF assms] by (simp add: rand_def)

section \<open>Candlestick rows: the price floor and the envelope\<close>

lemma candlestick_draws:
  assumes "unit_interval R" "2 * \<bar>v\<bar> < overflow_threshold"
  shows "\<exists>d. js_rand R k (num_neg (Finite v)) (Finite v) = (Finite d, Suc k)"
    and "\<exists>d. js_rand R k (Finite 0) (num_mul (Finite v) (Finite 1.5)) = (Finite d, Suc k) \<and>
           (0 \<le> v \<longrightarrow> 0 \<le> d)"
proof -
  have a: "\<bar>- v\<bar> < overflow_threshold" "\<bar>v\<bar> < overflow_threshold"
    "\<bar>v - - v\<bar> < overflow_threshold"
    using assms(2) by simp_all
  show "\<exists>d. js_rand R k (num_neg (Finite v)) (Finite v) = (Finite d, Suc k)"
    using js_rand_finite(1) [OF assms(1) a] by simp
  have b: "\<bar>v * 1.5\<bar> < overflow_threshold" "\<bar>0 :: real\<bar> < overflow_threshold"
    "\<bar>v * 1.5 - 0\<bar> < overflow_threshold"
    using assms(2) threshold_pos by simp_all
  have m: "num_mul (Finite v) (Finite 1.5) = Finite (v * 1.5)"
    using b(1) by (simp add: rounded_in_range)
  have "0 \<le> v \<longrightarrow> 0 \<le> R k * (v * 1.5 - 0) + 0"
    using js_rand_finite(2) [OF assms(1) b(2) b(1) b(3), of k] by auto
  then show "\<exists>d. js_rand R k (Finite 0) (num_mul (Finite v) (Finite 1.5)) = (Finite d, Suc k) \<and>
           (0 \<le> v \<longrightarrow> 0 \<le> d)"
    using js_rand_finite(1) [OF assms(1) b(2) b(1) b(3), of k] unfolding m by blast
qed

lemma candlestick_body_row:
  assumes "unit_interval R" "2 * \<bar>v\<bar> < overflow_threshold" "price \<noteq> NaN"
    and "candlestick_body i start interval (Finite v) R price k = (row, price', k')"
  shows "\<exists>d dh dl.
           (0 \<le> v \<longrightarrow> 0 \<le> dh \<and> 0 \<le> dl) \<and>
           price' = Math_max (Finite 1) (num_add price (Finite d)) \<and>
           candle_open row = toFixed_number price 2 \<and>
           candle_close row = toFixed_number price' 2 \<and>
           candle_high row = toFixed_number (num_add (Math_max price price') (Finite dh)) 2 \<and>
           candle_low row = toFixed_number (num_sub (Math_min price price') (Finite dl)) 2"
proof -
  from candlestick_draws(1) [OF assms(1,2), of k]
  obtain d where d: "js_rand R k (num_neg (Finite v)) (Finite v) = (Finite d, Suc k)" by blast
  from candlestick_draws(2) [OF assms(1,2), of "Suc k"]
  obtain dh where dh: "js_rand R (Suc k) (Finite 0) (num_mul (Finite v) (Finite 1.5)) =
      (Finite dh, Suc (Suc k))" and dh0: "0 \<le> v \<longrightarrow> 0 \<le> dh" by blast
  from candlestick_draws(2) [OF assms(1,2), of "Suc (Suc k)"]
  obtain dl where dl: "js_rand R (Suc (Suc k)) (Finite 0) (num_mul (Finite v) (Finite 1.5)) =
      (Finite dl, Suc (Suc (Suc k)))" and dl0: "0 \<le> v \<longrightarrow> 0 \<le> dl" by blast
  have "row = (num_add start (num_mul (Finite (of_nat i)) interval), toFixed_number price 2,
       toFixed_number (num_add (Math_max price (Math_max (Finite 1) (num_add price (Finite d))))
         (Finite dh)) 2,
       toFixed_number (num_sub (Math_min price (Math_max (Finite 1) (num_add price (Finite d))))
         (Finite dl)) 2,
       toFixed_number (Math_max (Finite 1) (num_add price (Finite d))) 2) \<and>
     price' = Math_max (Finite 1) (num_add price (Finite d))"
    using assms(4) d dh dl by (auto simp: candlestick_body_def Let_def)
  then show ?thesis
    using dh0 dl0
    by (intro exI [of _ d] exI [of _ dh] exI [of _ dl])
      (simp add: candle_open_def candle_close_def candle_high_def candle_low_def)
qed

lemma candlestick_body_floor:
  assumes "unit_interval R" "2 * \<bar>v\<bar> < overflow_threshold" "price \<noteq> NaN"
    and "candlestick_body i start interval (Finite v) R price k = (row, price', k')"
  shows "price' \<noteq> NaN \<and> in_range price' \<and> num_le (Finite 1) price' \<and>
         num_le (Finite 1) (candle_close row) \<and> candle_open row = toFixed_number price 2"
proof -
  from candlestick_body_row [OF assms]
  obtain d where p: "price' = Math_max (Finite 1) (num_add price (Finite d))"
    and o: "candle_open row = toFixed_number price 2"
    and c: "candle_close row = toFixed_number price' 2"
    by blast
  have s: "num_add price (Finite d) \<noteq> NaN" using assms(3) by (rule num_add_finite_not_NaN)
  have one: "Finite 1 \<noteq> NaN" by simp
  note m = Math_max_upper [OF one s]
  have r: "in_range price'"
    unfolding p using threshold_large
    by (intro in_range_Math_max in_range_num_add) (simp add: in_range_def)
  have "num_le (toFixed_number (Finite 1) 2) (toFixed_number price' 2)"
    unfolding p using m(2) by (rule toFixed_number_mono)
  then have "num_le (Finite 1) (candle_close row)"
    by (simp add: c toFixed_number_def toFixed_one)
  then show ?thesis using m r o unfolding p by simp
qed

lemma candlestick_body_envelope:
  assumes "unit_interval R" "2 * \<bar>v\<bar> < overflow_threshold" "0 \<le> v"
    and "price \<noteq> NaN" "in_range price"
    and "candlestick_body i start interval (Finite v) R price k = (row, price', k')"
  shows "num_le (Math_max (candle_open row) (candle_close row)) (candle_high row) \<and>
         num_le (candle_low row) (Math_min (candle_open row) (candle_close row))"
proof -
  from candlestick_body_row [OF assms(1,2,4,6)] assms(3)
  obtain dh dl where dh: "0 \<le> dh" and dl: "0 \<le> dl"
    and o: "candle_open row = toFixed_number price 2"
    and c: "candle_close row = toFixed_number price' 2"
    and h: "candle_high row = toFixed_number (num_add (Math_max price price') (Finite dh)) 2"
    and l: "candle_low row = toFixed_number (num_sub (Math_min price price') (Finite dl)) 2"
    by blast
  note f = candlestick_body_floor [OF assms(1,2,4,6)]
  then have p': "price' \<noteq> NaN" and r': "in_range price'" by simp_all
  note mx = Math_max_upper [OF assms(4) p'] and mn = Math_min_lower [OF assms(4) p']
  have rmx: "in_range (Math_max price price')" using assms(5) r' by (rule in_range_Math_max)
  have rmn: "in_range (Math_min price price')" using assms(5) r' by (rule in_range_Math_min)
  note up = num_add_nonneg [OF mx(1) rmx dh] and down = num_sub_nonneg [OF mn(1) rmn dl]
  have "num_le price (num_add (Math_max price price') (Finite dh))"
    "num_le price' (num_add (Math_max price price') (Finite dh))"
    using mx(2,3) up by (blast intro: num_le_trans)+
  then have hi: "num_le (Math_max (candle_open row) (candle_close row)) (candle_high row)"
    unfolding o c h by (intro Math_max_least toFixed_number_mono)
  have "num_le (num_sub (Math_min price price') (Finite dl)) price"
    "num_le (num_sub (Math_min price price') (Finite dl)) price'"
    using mn(2,3) down by (blast intro: num_le_trans)+
  then have lo: "num_le (candle_low row) (Math_min (candle_open row) (candle_close row))"
    unfolding o c l by (intro Math_min_greatest toFixed_number_mono)
  from hi lo show ?thesis by simp
qed

lemma candlestick_loop_envelope:
  assumes "unit_interval R" "vol = Finite v" "2 * \<bar>v\<bar> < overflow_threshold" "0 \<le> v"
    and "price \<noteq> NaN" "in_range price"
    and "\<forall>c \<in> set data. num_le (Math_max (candle_open c) (candle_close c)) (candle_high c) \<and>
           num_le (candle_low c) (Math_min (candle_open c) (candle_close c))"
  shows "\<forall>c \<in> set (fst (candlestick_loop i points start interval vol R price data k)).
           num_le (Math_max (candle_open c) (candle_close c)) (candle_high c) \<and>
           num_le (candle_low c) (Math_min (candle_open c) (candle_close c))"
  using assms
proof (induction i points start interval vol R price data k rule: candlestick_loop.induct)
  case (1 i points start interval vol R price data k)
  note u = "1.prems"(1) and vol = "1.prems"(2) and bound = "1.prems"(3) and pos = "1.prems"(4)
  show ?case
  proof (cases "of_nat i < points")
    case False
    then show ?thesis using "1.prems"(7) by (simp add: candlestick_loop.simps)
  next
    case True
    obtain row price' k' where
      b: "candlestick_body i start interval (Finite v) R price k = (row, price', k')"
      by (cases "candlestick_body i start interval (Finite v) R price k") auto
    note e = candlestick_body_envelope [OF u bound pos "1.prems"(5,6) b]
    note f = candlestick_body_floor [OF u bound "1.prems"(5) b]
    have inv: "\<forall>c \<in> set (data @ [row]).
        num_le (Math_max (candle_open c) (candle_close c)) (candle_high c) \<and>
        num_le (candle_low c) (Math_min (candle_open c) (candle_close c))"
      using e "1.prems"(7) by auto
    have p: "price' \<noteq> NaN" and r: "in_range price'" using f by simp_all
    have b': "(row, price', k') = candlestick_body i start interval vol R price k"
      using b vol by simp
    show ?thesis
      using "1.IH" [OF True b' refl u vol bound pos p r inv] True b vol
      by (simp add: candlestick_loop.simps [of i])
  qed
qed

lemma candlestick_loop_floor:
  assumes "unit_interval R" "vol = Finite v" "2 * \<bar>v\<bar> < overflow_threshold" "price \<noteq> NaN"
    and "\<forall>j < length data. num_le (Finite 1) (candle_close (data ! j)) \<and>
           (1 \<le> j \<longrightarrow> num_le (Finite 1) (candle_open (data ! j)))"
    and "data \<noteq> [] \<longrightarrow> num_le (Finite 1) price"
  shows "\<forall>j < length (fst (candlestick_loop i points start interval vol R price data k)).
           num_le (Finite 1)
             (candle_close (fst (candlestick_loop i points start interval vol R price data k) ! j)) \<and>
           (1 \<le> j \<longrightarrow> num_le (Finite 1)
             (candle_open (fst (candlestick_loop i points start interval vol R price data k) ! j)))"
  using assms
proof (induction i points start interval vol R price data k rule: candlestick_loop.induct)
  case (1 i points start interval vol R price data k)
  note u = "1.prems"(1) and vol = "1.prems"(2) and bound = "1.prems"(3)
  show ?case
  proof (cases "of_nat i < points")
    case False
    then show ?thesis using "1.prems"(5) by (simp add: candlestick_loop.simps)
  next
    case True
    obtain row price' k' where
      b: "candlestick_body i start interval (Finite v) R price k = (row, price', k')"
      by (cases "candlestick_body i start interval (Finite v) R price k") auto
    note f = candlestick_body_floor [OF u bound "1.prems"(4) b]
    have op: "num_le (Finite 1) (toFixed_number price 2)" if "num_le (Finite 1) price"
      using toFixed_number_mono [OF that, of 2] by (simp add: toFixed_number_def toFixed_one)
    have inv: "\<forall>j < length (data @ [row]).
        num_le (Finite 1) (candle_close ((data @ [row]) ! j)) \<and>
        (1 \<le> j \<longrightarrow> num_le (Finite 1) (candle_open ((data @ [row]) ! j)))"
    proof (intro allI impI)
      fix j assume j: "j < length (data @ [row])"
      show "num_le (Finite 1) (candle_close ((data @ [row]) ! j)) \<and>
          (1 \<le> j \<longrightarrow> num_le (Finite 1) (candle_open ((data @ [row]) ! j)))"
      proof (cases "j < length data")
        case True
        then show ?thesis using "1.prems"(5) by (simp add: nth_append)
      next
        case False
        then have "j = length data" using j by simp
        then show ?thesis using f op "1.prems"(6) by (auto simp: nth_append)
      qed
    qed
    have p: "price' \<noteq> NaN" using f by simp
    have q: "data @ [row] \<noteq> [] \<longrightarrow> num_le (Finite 1) price'" using f by simp
    have b': "(row, price', k') = candlestick_body i start interval vol R price k"
      using b vol by simp
    show ?thesis
      using "1.IH" [OF True b' refl u vol bound p inv q] True b vol
      by (simp add: candlestick_loop.simps [of i])
  qed
qed

lemma candlestick_negative_base:
  "fst (generateCandlestick 3 (Finite 0) (Finite 86400000) (Finite (- 5)) (Finite 2) (\<lambda>n. 1 / 4) 0) =
     [(Finite 0, Finite (- 5), Finite (7 / 4), Finite (- (23 / 4)), Finite 1),
      (Finite 86400000, Finite 1, Finite (7 / 4), Finite (1 / 4), Finite 1),
      (Finite 172800000, Finite 1, Finite (7 / 4), Finite (1 / 4), Finite 1)]"
  by (simp add: generateCandlestick_def candlestick_loop.simps candlestick_body_def js_rand_def
      num_sub_def rounded_def overflow_threshold_def toFixed_number_def toFixed_def Math_max_def
      Math_min_def Let_def)

lemma candlestick_overflow:
  "fst (generateCandlestick 1 (Finite 0) (Finite 86400000) (Finite 100) (Finite (2 ^ 1023)) (\<lambda>n. 0) 0) =
     [(Finite 0, Finite 100, NaN, NaN, NaN)]"
  by (simp add: generateCandlestick_def candlestick_loop.simps candlestick_body_def js_rand_def
      num_sub_def rounded_def overflow_threshold_def toFixed_number_def toFixed_def Math_max_def
      Math_min_def Let_def)

lemma candlestick_NaN_base:
  "fst (generateCandlestick 1 (Finite 0) (Finite 86400000) NaN (Finite 2) (\<lambda>n. 1 / 2) 0) =
     [(Finite 0, NaN, NaN, NaN, NaN)]"
  by (simp add: generateCandlestick_def candlestick_loop.simps candlestick_body_def js_rand_def
      num_sub_def rounded_def overflow_threshold_def toFixed_number_def toFixed_def Math_max_def
      Math_min_def Let_def)

lemma candlestick_negative_volatility:
  "fst (generateCandlestick 1 (Finite 0) (Finite 86400000) (Finite 100) (Finite (- 2)) (\<lambda>n. 1 / 2) 0) =
     [(Finite 0, Finite 100, Finite (197 / 2), Finite (203 / 2), Finite 100)]"
  by (simp add: generateCandlestick_def candlestick_loop.simps candlestick_body_def js_rand_def
      num_sub_def rounded_def overflow_threshold_def toFixed_number_def toFixed_def Math_max_def
      Math_min_def Let_def)

lemma candlestick_halves:
  "fst (generateCandlestick 1 (Finite 0) (Finite 86400000) (Finite 100) (Finite 2) (\<lambda>n. 1 / 2) 0) =
     [(Finite 0, Finite 100, Finite (203 / 2), Finite (197 / 2), Finite 100)]"
  by (simp add: generateCandlestick_def candlestick_loop.simps candlestick_body_def js_rand_def
      num_sub_def rounded_def overflow_threshold_def toFixed_number_def toFixed_def Math_max_def
      Math_min_def Let_def)

text \<open>
  Claim C9 is stated for every configuration. It fails where the walk meets NaN. With
  \<^verbatim>\<open>volatility = 2^1023\<close> the difference \<^verbatim>\<open>volatility - (-volatility)\<close> is \<^verbatim>\<open>Infinity\<close>, a
  random draw of 0 makes the step \<^verbatim>\<open>0 * Infinity = NaN\<close>, and \<^verbatim>\<open>Math.max(1, NaN)\<close> is
  NaN: the row is \<open>[0, 100, NaN, NaN, NaN]\<close>. With \<^verbatim>\<open>base = NaN\<close> the close is NaN as
  well. No comparison with NaN is true.
\<close>

theorem candlestick_price_floor_counterexample:
  "unit_interval (\<lambda>n. 0) \<and>
   fst (generateCandlestick 1 (Finite 0) (Finite 86400000) (Finite 100) (Finite (2 ^ 1023)) (\<lambda>n. 0) 0) =
     [(Finite 0, Finite 100, NaN, NaN, NaN)] \<and>
   \<not> num_le (Finite 1) (candle_close (Finite 0, Finite 100, NaN, NaN, NaN)) \<and>
   unit_interval (\<lambda>n. 1 / 2) \<and>
   fst (generateCandlestick 1 (Finite 0) (Finite 86400000) NaN (Finite 2) (\<lambda>n. 1 / 2) 0) =
     [(Finite 0, NaN, NaN, NaN, NaN)] \<and>
   \<not> num_le (Finite 1) (candle_close (Finite 0, NaN, NaN, NaN, NaN))"
  using candlestick_overflow candlestick_NaN_base
  by (simp add: unit_interval_def candle_close_def)

text \<open>
  Claim C9, amended. For every configuration of \<open>generateCandlestick\<close> whose \<^verbatim>\<open>base\<close> is
  not NaN (zero, negative and infinite \<^verbatim>\<open>base\<close> included) and whose \<^verbatim>\<open>volatility\<close> is a
  finite number such that twice its magnitude is finite as well (below
  \<open>2^1024 - 2^970\<close>; for a double: a magnitude below \<open>2^1023\<close>), and for every random source
  with values in \<open>[0, 1)\<close>: the close of every row is at least 1, and the open of every
  row from the second on is at least 1.
\<close>

theorem candlestick_price_floor:
  assumes "unit_interval R" "2 * \<bar>v\<bar> < overflow_threshold" "base \<noteq> NaN"
    and "j < length (fst (generateCandlestick points start interval base (Finite v) R k))"
  shows "num_le (Finite 1)
           (candle_close (fst (generateCandlestick points start interval base (Finite v) R k) ! j)) \<and>
     (1 \<le> j \<longrightarrow> num_le (Finite 1)
           (candle_open (fst (generateCandlestick points start interval base (Finite v) R k) ! j)))"
  using candlestick_loop_floor [OF assms(1) refl assms(2,3), of "[]" 0 points start interval k]
    assms(4)
  by (simp add: generateCandlestick_def)

theorem candlestick_price_floor_witness:
  "unit_interval (\<lambda>n. 1 / 4) \<and> 2 * \<bar>2 :: real\<bar> < overflow_threshold \<and> Finite (- 5) \<noteq> NaN \<and>
   (1 :: nat) < length (fst (generateCandlestick 3 (Finite 0) (Finite 86400000) (Finite (- 5))
      (Finite 2) (\<lambda>n. 1 / 4) 0)) \<and>
   fst (generateCandlestick 3 (Finite 0) (Finite 86400000) (Finite (- 5)) (Finite 2) (\<lambda>n. 1 / 4) 0) ! 1 =
     (Finite 86400000, Finite 1, Finite (7 / 4), Finite (1 / 4), Finite 1) \<and>
   num_le (Finite 1) (candle_close (fst (generateCandlestick 3 (Finite 0) (Finite 86400000)
      (Finite (- 5)) (Finite 2) (\<lambda>n. 1 / 4) 0) ! 1)) \<and>
   num_le (Finite 1) (candle_open (fst (generateCandlestick 3 (Finite 0) (Finite 86400000)
      (Finite (- 5)) (Finite 2) (\<lambda>n. 1 / 4) 0) ! 1))"
proof -
  have u: "unit_interval (\<lambda>n. 1 / 4)" by (simp add: unit_interval_def)
  have b: "2 * \<bar>2 :: real\<bar> < overflow_threshold" by (simp add: overflow_threshold_def)
  have n: "Finite (- 5) \<noteq> NaN" by simp
  have len: "(1 :: nat) < length (fst (generateCandlestick 3 (Finite 0) (Finite 86400000)
      (Finite (- 5)) (Finite 2) (\<lambda>n. 1 / 4) 0))"
    by (simp add: candlestick_negative_base)
  have row: "fst (generateCandlestick 3 (Finite 0) (Finite 86400000) (Finite (- 5)) (Finite 2)
      (\<lambda>n. 1 / 4) 0) ! 1 = (Finite 86400000, Finite 1, Finite (7 / 4), Finite (1 / 4), Finite 1)"
    by (simp add: candlestick_negative_base)
  from candlestick_price_floor [OF u b n len] u b n len row show ?thesis by simp
qed

text \<open>
  Claim C1, as stated, fails in two ways. For a negative \<^verbatim>\<open>volatility\<close> the draw
  \<^verbatim>\<open>rand(0, volatility * 1.5)\<close> is negative or zero, so the high lies below and the low
  above the open and the close: with \<^verbatim>\<open>volatility = -2\<close> and every random draw \<open>1/2\<close>
  the single row is \<open>[0, 100, 98.5, 101.5, 100]\<close>. For a \<^verbatim>\<open>volatility\<close> of \<open>2^1023\<close> and a
  draw of 0 the row is \<open>[0, 100, NaN, NaN, NaN]\<close>, and no comparison with NaN is true.
\<close>

theorem candlestick_envelope_counterexample:
  "unit_interval (\<lambda>n. 1 / 2) \<and>
   fst (generateCandlestick 1 (Finite 0) (Finite 86400000) (Finite 100) (Finite (- 2)) (\<lambda>n. 1 / 2) 0) =
     [(Finite 0, Finite 100, Finite (197 / 2), Finite (203 / 2), Finite 100)] \<and>
   \<not> num_le
       (Math_max (candle_open (Finite 0, Finite 100, Finite (197 / 2), Finite (203 / 2), Finite 100))
          (candle_close (Finite 0, Finite 100, Finite (197 / 2), Finite (203 / 2), Finite 100)))
       (candle_high (Finite 0, Finite 100, Finite (197 / 2), Finite (203 / 2), Finite 100)) \<and>
   \<not> num_le
       (candle_low (Finite 0, Finite 100, Finite (197 / 2), Finite (203 / 2), Finite 100))
       (Math_min (candle_open (Finite 0, Finite 100, Finite (197 / 2), Finite (203 / 2), Finite 100))
          (candle_close (Finite 0, Finite 100, Finite (197 / 2), Finite (203 / 2), Finite 100))) \<and>
   unit_interval (\<lambda>n. 0) \<and>
   fst (generateCandlestick 1 (Finite 0) (Finite 86400000) (Finite 100) (Finite (2 ^ 1023)) (\<lambda>n. 0) 0) =
     [(Finite 0, Finite 100, NaN, NaN, NaN)] \<and>
   \<not> num_le
       (Math_max (candle_open (Finite 0, Finite 100, NaN, NaN, NaN))
          (candle_close (Finite 0, Finite 100, NaN, NaN, NaN)))
       (candle_high (Finite 0, Finite 100, NaN, NaN, NaN))"
  using candlestick_negative_volatility candlestick_overflow
  by (simp add: unit_interval_def candle_open_def candle_close_def candle_high_def candle_low_def
      Math_max_def Math_min_def)

text \<open>
  Claim C1, amended. For every configuration whose \<^verbatim>\<open>base\<close> is a number other than NaN
  and whose \<^verbatim>\<open>volatility\<close> is at least 0 and such that twice the volatility is finite
  (below \<open>2^1024 - 2^970\<close>; for a double: a volatility below \<open>2^1023\<close>), and for every
  random source with values in \<open>[0, 1)\<close>, every row
  \<open>(time, open, high, low, close)\<close> produced by \<open>generateCandlestick\<close> has
  \<open>high \<ge> max(open, close)\<close> and \<open>low \<le> min(open, close)\<close>.
\<close>

theorem candlestick_envelope:
  assumes "unit_interval R" "0 \<le> v" "2 * \<bar>v\<bar> < overflow_threshold"
    and "base \<noteq> NaN" "in_range base"
    and "c \<in> set (fst (generateCandlestick points start interval base (Finite v) R k))"
  shows "num_le (Math_max (candle_open c) (candle_close c)) (candle_high c) \<and>
         num_le (candle_low c) (Math_min (candle_open c) (candle_close c))"
  using candlestick_loop_envelope [OF assms(1) refl assms(3,2,4,5), of "[]" 0 points start interval k]
    assms(6)
  by (simp add: generateCandlestick_def)

theorem candlestick_envelope_witness:
  "unit_interval (\<lambda>n. 1 / 2) \<and> (0 :: real) \<le> 2 \<and> 2 * \<bar>2 :: real\<bar> < overflow_threshold \<and>
   Finite 100 \<noteq> NaN \<and> in_range (Finite 100) \<and>
   (Finite 0, Finite 100, Finite (203 / 2), Finite (197 / 2), Finite 100)
     \<in> set (fst (generateCandlestick 1 (Finite 0) (Finite 86400000) (Finite 100) (Finite 2)
          (\<lambda>n. 1 / 2) 0)) \<and>
   num_le
     (Math_max (candle_open (Finite 0, Finite 100, Finite (203 / 2), Finite (197 / 2), Finite 100))
        (candle_close (Finite 0, Finite 100, Finite (203 / 2), Finite (197 / 2), Finite 100)))
     (candle_high (Finite 0, Finite 100, Finite (203 / 2), Finite (197 / 2), Finite 100)) \<and>
   num_le
     (candle_low (Finite 0, Finite 100, Finite (203 / 2), Finite (197 / 2), Finite 100))
     (Math_min (candle_open (Finite 0, Finite 100, Finite (203 / 2), Finite (197 / 2), Finite 100))
        (candle_close (Finite 0, Finite 100, Finite (203 / 2), Finite (197 / 2), Finite 100)))"
proof -
  have u: "unit_interval (\<lambda>n. 1 / 2)" by (simp add: unit_interval_def)
  have v: "(0 :: real) \<le> 2" by simp
  have b: "2 * \<bar>2 :: real\<bar> < overflow_threshold" by (simp add: overflow_threshold_def)
  have n: "Finite 100 \<noteq> NaN" by simp
  have r: "in_range (Finite 100)" by (simp add: in_range_def overflow_threshold_def)
  have m: "(Finite 0, Finite 100, Finite (203 / 2), Finite (197 / 2), Finite 100)
     \<in> set (fst (generateCandlestick 1 (Finite 0) (Finite 86400000) (Finite 100) (Finite 2)
          (\<lambda>n. 1 / 2) 0))"
    by (simp add: candlestick_halves)
  from candlestick_envelope [OF u v b n r m] u v b n r m show ?thesis by blast
qed

section \<open>Boxplot groups: order statistics of the sorted sample\<close>






lemma quartile_indices:
  fixes samples :: real
  assumes "1 \<le> samples"
  shows "0 \<le> \<lfloor>samples * 0.25\<rfloor>"
    and "\<lfloor>samples * 0.25\<rfloor> \<le> \<lfloor>samples * 0.5\<rfloor>"
    and "\<lfloor>samples * 0.5\<rfloor> \<le> \<lfloor>samples * 0.75\<rfloor>"
proof -
  show "0 \<le> \<lfloor>samples * 0.25\<rfloor>" using assms by simp
  show "\<lfloor>samples * 0.25\<rfloor> \<le> \<lfloor>samples * 0.5\<rfloor>" using assms by (intro floor_mono) simp
  show "\<lfloor>samples * 0.5\<rfloor> \<le> \<lfloor>samples * 0.75\<rfloor>" using assms by (intro floor_mono) simp
qed



text \<open>
  A whole number of samples between 1 and \<open>2^32 - 1\<close> never raises: every index read
  lies inside the array, and the loop returns one group for each \<open>g < groups\<close>.
\<close>

lemma sample_length: "length (fst (sample R k n lo hi)) = n"
  by (induction n arbitrary: k) (simp_all add: split_beta)

lemma js_insert_length: "length (js_insert x ys) = Suc (length ys)"
  by (induction ys) simp_all

lemma js_sort_length: "length (js_sort xs) = length xs"
  by (induction xs) (simp_all add: js_insert_length)

lemma ToLength_whole: "n < 2 ^ 32 \<Longrightarrow> ToLength (of_nat n) = n"
proof -
  assume "n < 2 ^ 32"
  moreover have "(2 :: nat) ^ 32 \<le> 2 ^ 53 - 1" by simp
  ultimately have "n \<le> 2 ^ 53 - 1" by linarith
  then show ?thesis by (cases "n = 0") (simp_all add: ToLength_def)
qed

lemma quartiles_whole:
  assumes "length arr = n" "1 \<le> n"
  shows "\<exists>v. quartiles arr (of_nat n) = Inr v"
proof -
  have n: "(1 :: real) \<le> of_nat n" using assms(2) by simp
  note q = quartile_indices [OF n]
  have "of_nat n * (0.75 :: real) < of_nat n" using assms(2) by simp
  then have c: "\<lfloor>of_nat n * (0.75 :: real)\<rfloor> < int n" by (simp add: floor_less_iff)
  show ?thesis
    using q c assms by (simp add: quartiles_def at_index_def)
qed

lemma boxplot_loop_whole:
  assumes "1 \<le> n" "n < 2 ^ 32"
  shows "\<exists>out' k'. boxplot_loop g groups (of_nat n) lo hi R out k = Inr (out', k') \<and>
           length out' = length out + (nat \<lceil>groups\<rceil> - g)"
  using assms
proof (induction g groups "of_nat n :: real" lo hi R out k rule: boxplot_loop.induct)
  case (1 g groups lo hi R out k)
  have len: "ToLength (of_nat n) = n" using "1.prems"(2) by (rule ToLength_whole)
  show ?case
  proof (cases "of_nat g < groups")
    case False
    then have "nat \<lceil>groups\<rceil> - g = 0" by (simp add: ceiling_le_iff)
    then show ?thesis using False by (simp add: boxplot_loop.simps [of g])
  next
    case True
    have small: "\<not> 2 ^ 32 \<le> ToLength (of_nat n)" using "1.prems"(2) len by simp
    obtain xs k1 where d: "sample R k (ToLength (of_nat n)) lo hi = (xs, k1)"
      by (cases "sample R k (ToLength (of_nat n)) lo hi") auto
    have "length xs = n" using sample_length [of R k "ToLength (of_nat n)" lo hi] d len by simp
    then have "length (js_sort xs) = n" by (simp add: js_sort_length)
    from quartiles_whole [OF this "1.prems"(1)] obtain v where
      qv: "quartiles (js_sort xs) (of_nat n) = Inr v" by blast
    let ?grp = "\<lparr>box_name = ''G'' @ string_of_nat (g + 1), box_value = v\<rparr>"
    have d': "(xs, k1) = sample R k (ToLength (of_nat n)) lo hi" using d by simp
    from "1.hyps" [OF True small d' qv "1.prems"] obtain out' k' where
      r: "boxplot_loop (g + 1) groups (of_nat n) lo hi R (out @ [?grp]) k1 = Inr (out', k')"
      and l: "length out' = length (out @ [?grp]) + (nat \<lceil>groups\<rceil> - (g + 1))"
      by blast
    have "g < nat \<lceil>groups\<rceil>" using True by linarith
    then have "length out' = length out + (nat \<lceil>groups\<rceil> - g)" using l by simp
    moreover have "boxplot_loop g groups (of_nat n) lo hi R out k = Inr (out', k')"
      using r True small d qv by (simp add: boxplot_loop.simps [of g])
    ultimately show ?thesis by blast
  qed
qed

lemma boxplot_whole_samples:
  assumes "1 \<le> n" "n < 2 ^ 32"
  shows "\<exists>out k'. generateBoxplot groups (of_nat n) lo hi R k = Inr (out, k') \<and>
           length out = nat \<lceil>groups\<rceil>"
  using boxplot_loop_whole [OF assms, of 0 groups lo hi R "[]" k]
  by (simp add: generateBoxplot_def)















section \<open>Funnel stages: five stages, never increasing\<close>

lemma funnel_loop_length:
  "length (fst (funnel_loop i stages dropRatio R current data k)) = length data + nat (stages - i)"
proof (induction i stages dropRatio R current data k rule: funnel_loop.induct)
  case (1 i stages dropRatio R current data k)
  show ?case
  proof (cases "i < stages")
    case False
    then show ?thesis by (simp add: funnel_loop.simps)
  next
    case True
    obtain f k' where r: "rand R k 0.8 1.2 = (f, k')" by (cases "rand R k 0.8 1.2") auto
    show ?thesis
      using "1.IH" [OF True r [symmetric]] True r
      by (simp add: funnel_loop.simps [of i])
  qed
qed

lemma funnel_loop_prefix:
  "j < length data \<Longrightarrow> fst (funnel_loop i stages dropRatio R current data k) ! j = data ! j"
proof (induction i stages dropRatio R current data k rule: funnel_loop.induct)
  case (1 i stages dropRatio R current data k)
  show ?case
  proof (cases "i < stages")
    case False
    then show ?thesis by (simp add: funnel_loop.simps)
  next
    case True
    obtain f k' where r: "rand R k 0.8 1.2 = (f, k')" by (cases "rand R k 0.8 1.2") auto
    show ?thesis
      using "1.IH" [OF True r [symmetric]] True r "1.prems"
      by (simp add: funnel_loop.simps [of i] nth_append)
  qed
qed

lemma funnel_factor:
  assumes "unit_interval R" "0 \<le> dropRatio" "dropRatio * 1.2 \<le> 1" "rand R k 0.8 1.2 = (f, k')"
  shows "0 \<le> 1 - dropRatio * f \<and> 1 - dropRatio * f \<le> 1"
proof -
  have u: "0 \<le> R k" "R k < 1" using assms(1) by (simp_all add: unit_interval_def)
  have f: "f = R k * (1.2 - 0.8) + 0.8" using assms(4) by (simp add: rand_def)
  have f0: "0 \<le> f" and f1: "f \<le> 1.2" using u by (simp_all add: f)
  have "0 \<le> dropRatio * f" using assms(2) f0 by (rule mult_nonneg_nonneg)
  moreover have "dropRatio * f \<le> dropRatio * 1.2" using f1 assms(2) by (rule mult_left_mono)
  ultimately show ?thesis using assms(3) by linarith
qed

lemma funnel_loop_descending:
  assumes "unit_interval R" "0 \<le> dropRatio" "dropRatio * 1.2 \<le> 1" "0 \<le> current"
    and "\<forall>j. Suc j < length data \<longrightarrow> stage_value (data ! Suc j) \<le> stage_value (data ! j)"
    and "data \<noteq> [] \<longrightarrow> Math_round current \<le> stage_value (last data)"
  shows "\<forall>j. Suc j < length (fst (funnel_loop i stages dropRatio R current data k)) \<longrightarrow>
           stage_value (fst (funnel_loop i stages dropRatio R current data k) ! Suc j)
             \<le> stage_value (fst (funnel_loop i stages dropRatio R current data k) ! j)"
  using assms
proof (induction i stages dropRatio R current data k rule: funnel_loop.induct)
  case (1 i stages dropRatio R current data k)
  show ?case
  proof (cases "i < stages")
    case False
    then show ?thesis using "1.prems"(5) by (simp add: funnel_loop.simps)
  next
    case True
    obtain f k' where r: "rand R k 0.8 1.2 = (f, k')" by (cases "rand R k 0.8 1.2") auto
    note fac = funnel_factor [OF "1.prems"(1,2,3) r]
    let ?st = "\<lparr>stage_name = ''Stage'' @ string_of_int (i + 1), stage_value = Math_round current\<rparr>"
    let ?c = "current * (1 - dropRatio * f)"
    have c0: "0 \<le> ?c" using fac "1.prems"(4) by simp
    have "?c \<le> current * 1" using fac "1.prems"(4) by (intro mult_left_mono) simp_all
    then have c1: "?c \<le> current" by simp
    have d: "\<forall>j. Suc j < length (data @ [?st]) \<longrightarrow>
        stage_value ((data @ [?st]) ! Suc j) \<le> stage_value ((data @ [?st]) ! j)"
    proof (intro allI impI)
      fix j assume j: "Suc j < length (data @ [?st])"
      show "stage_value ((data @ [?st]) ! Suc j) \<le> stage_value ((data @ [?st]) ! j)"
      proof (cases "Suc j < length data")
        case True
        then show ?thesis using "1.prems"(5) by (simp add: nth_append)
      next
        case False
        then have e: "Suc j = length data" using j by simp
        then have ne: "data \<noteq> []" by auto
        have "length data - 1 = j" using e by simp
        then have "last data = data ! j" using ne by (simp add: last_conv_nth)
        then have "Math_round current \<le> stage_value (data ! j)"
          using "1.prems"(6) ne by simp
        then show ?thesis using e by (simp add: nth_append)
      qed
    qed
    have l: "data @ [?st] \<noteq> [] \<longrightarrow> Math_round ?c \<le> stage_value (last (data @ [?st]))"
      using Math_round_mono [OF c1] by simp
    show ?thesis
      using "1.IH" [OF True r [symmetric] "1.prems"(1,2,3) c0 d l] True r
      by (simp add: funnel_loop.simps [of i])
  qed
qed

lemma funnel_first:
  assumes "0 < stages"
  shows "stage_value (fst (generateFunnel stages startValue dropRatio R k) ! 0) = Math_round startValue"
proof -
  obtain f k' where r: "rand R k 0.8 1.2 = (f, k')" by (cases "rand R k 0.8 1.2") auto
  show ?thesis
    using assms r
    by (simp add: generateFunnel_def funnel_loop.simps [of 0] funnel_loop_prefix)
qed

text \<open>
  Claim C6. For every random source with values in \<open>[0, 1)\<close>,
  \<^verbatim>\<open>generateFunnel({stages:5, startValue:1000, drop:0.25})\<close> returns exactly 5 stages, the
  value of the first stage is 1000, and the value of every later stage is at most the
  value of the stage before it.
\<close>

theorem funnel_five_stages:
  assumes "unit_interval R"
  shows "length (fst (generateFunnel 5 1000 0.25 R k)) = 5 \<and>
         stage_value (fst (generateFunnel 5 1000 0.25 R k) ! 0) = 1000 \<and>
         (\<forall>j. Suc j < length (fst (generateFunnel 5 1000 0.25 R k)) \<longrightarrow>
            stage_value (fst (generateFunnel 5 1000 0.25 R k) ! Suc j)
              \<le> stage_value (fst (generateFunnel 5 1000 0.25 R k) ! j))"
proof -
  have len: "length (fst (generateFunnel 5 1000 0.25 R k)) = 5"
    by (simp add: generateFunnel_def funnel_loop_length)
  have first: "stage_value (fst (generateFunnel 5 1000 0.25 R k) ! 0) = 1000"
    by (simp add: funnel_first Math_round_def)
  have "\<forall>j. Suc j < length (fst (funnel_loop 0 5 0.25 R 1000 [] k)) \<longrightarrow>
           stage_value (fst (funnel_loop 0 5 0.25 R 1000 [] k) ! Suc j)
             \<le> stage_value (fst (funnel_loop 0 5 0.25 R 1000 [] k) ! j)"
    using assms by (intro funnel_loop_descending) simp_all
  then have "\<forall>j. Suc j < length (fst (generateFunnel 5 1000 0.25 R k)) \<longrightarrow>
            stage_value (fst (generateFunnel 5 1000 0.25 R k) ! Suc j)
              \<le> stage_value (fst (generateFunnel 5 1000 0.25 R k) ! j)"
    by (simp only: generateFunnel_def)
  with len first show ?thesis by blast
qed

lemma funnel_halves:
  "map stage_value (fst (generateFunnel 5 1000 0.25 (\<lambda>n. 1 / 2) 0)) = [1000, 750, 563, 422, 316]"
  by (simp add: generateFunnel_def funnel_loop.simps rand_def Math_round_def)

theorem funnel_five_stages_witness:
  "unit_interval (\<lambda>n. 1 / 2) \<and>
   map stage_value (fst (generateFunnel 5 1000 0.25 (\<lambda>n. 1 / 2) 0)) = [1000, 750, 563, 422, 316] \<and>
   length (fst (generateFunnel 5 1000 0.25 (\<lambda>n. 1 / 2) 0)) = 5 \<and>
   stage_value (fst (generateFunnel 5 1000 0.25 (\<lambda>n. 1 / 2) 0) ! 0) = 1000 \<and>
   stage_value (fst (generateFunnel 5 1000 0.25 (\<lambda>n. 1 / 2) 0) ! Suc 0)
     \<le> stage_value (fst (generateFunnel 5 1000 0.25 (\<lambda>n. 1 / 2) 0) ! 0)"
proof -
  have u: "unit_interval (\<lambda>n. 1 / 2)" by (simp add: unit_interval_def)
  note t = funnel_five_stages [OF u, of 0]
  from t have l: "length (fst (generateFunnel 5 1000 0.25 (\<lambda>n. 1 / 2) 0)) = 5" by blast
  from t have f: "stage_value (fst (generateFunnel 5 1000 0.25 (\<lambda>n. 1 / 2) 0) ! 0) = 1000"
    by blast
  from t have "Suc 0 < length (fst (generateFunnel 5 1000 0.25 (\<lambda>n. 1 / 2) 0)) \<longrightarrow>
      stage_value (fst (generateFunnel 5 1000 0.25 (\<lambda>n. 1 / 2) 0) ! Suc 0)
        \<le> stage_value (fst (generateFunnel 5 1000 0.25 (\<lambda>n. 1 / 2) 0) ! 0)"
    by blast
  with l have d: "stage_value (fst (generateFunnel 5 1000 0.25 (\<lambda>n. 1 / 2) 0) ! Suc 0)
        \<le> stage_value (fst (generateFunnel 5 1000 0.25 (\<lambda>n. 1 / 2) 0) ! 0)"
    by simp
  from u funnel_halves l f d show ?thesis by blast
qed

section \<open>Graphs: every node is reachable from N0\<close>

lemma randInt_below:
  assumes "unit_interval R" "1 \<le> i" "randInt R k 0 (of_int i - 1) = (s, k')"
  shows "0 \<le> s \<and> s < i"
proof -
  have u: "0 \<le> R k" "R k < 1" using assms(1) by (simp_all add: unit_interval_def)
  have i: "(0 :: real) < of_int i" using assms(2) by simp
  have s: "s = \<lfloor>R k * of_int i\<rfloor>" using assms(3) by (simp add: randInt_def rand_def)
  have "0 \<le> R k * of_int i" using u i by simp
  then have lo: "0 \<le> s" by (simp add: s)
  have "R k * of_int i < 1 * of_int i" using u i by (intro mult_strict_right_mono)
  then have "R k * of_int i < of_int i" by simp
  then have "s < i" unfolding s by (simp only: floor_less_iff)
  with lo show ?thesis by simp
qed

lemma node_array_ids:
  "map node_id (fst (node_array R is k)) = map (\<lambda>i. ''N'' @ string_of_nat i) is"
  by (induction "is" arbitrary: k) (simp_all add: split_beta)

lemma spanning_loop_keeps:
  "set links \<subseteq> set (fst (spanning_loop i nodes R links k))"
proof (induction i nodes R links k rule: spanning_loop.induct)
  case (1 i nodes R links k)
  show ?case
  proof (cases "i < nodes")
    case False
    then show ?thesis by (simp add: spanning_loop.simps)
  next
    case True
    obtain src k1 where a: "randInt R k 0 (of_int i - 1) = (src, k1)"
      by (cases "randInt R k 0 (of_int i - 1)") auto
    obtain v k2 where b: "randInt R k1 1 5 = (v, k2)" by (cases "randInt R k1 1 5") auto
    show ?thesis
      using "1.IH" [OF True a [symmetric] b [symmetric]] True a b
      by (simp add: spanning_loop.simps [of i])
  qed
qed

lemma spanning_loop_links:
  assumes "unit_interval R" "1 \<le> i" "i \<le> t" "t < nodes"
  shows "\<exists>s. 0 \<le> s \<and> s < t \<and>
           (''N'' @ string_of_int s, ''N'' @ string_of_int t)
             \<in> link_edges (fst (spanning_loop i nodes R links k))"
  using assms
proof (induction i nodes R links k rule: spanning_loop.induct)
  case (1 i nodes R links k)
  have True: "i < nodes" using "1.prems" by simp
  obtain src k1 where a: "randInt R k 0 (of_int i - 1) = (src, k1)"
    by (cases "randInt R k 0 (of_int i - 1)") auto
  obtain v k2 where b: "randInt R k1 1 5 = (v, k2)" by (cases "randInt R k1 1 5") auto
  let ?l = "\<lparr>link_source = ''N'' @ string_of_int src, link_target = ''N'' @ string_of_int i,
             link_weight = v\<rparr>"
  have e: "spanning_loop i nodes R links k = spanning_loop (i + 1) nodes R (links @ [?l]) k2"
    using True a b by (simp add: spanning_loop.simps [of i])
  show ?case
  proof (cases "t = i")
    case True
    have "?l \<in> set (fst (spanning_loop (i + 1) nodes R (links @ [?l]) k2))"
      using spanning_loop_keeps [of "links @ [?l]" "i + 1" nodes R k2] by auto
    then have "(''N'' @ string_of_int src, ''N'' @ string_of_int t)
        \<in> link_edges (fst (spanning_loop i nodes R links k))"
      unfolding e link_edges_def using True by force
    then show ?thesis using randInt_below [OF "1.prems"(1,2) a] True by blast
  next
    case False
    then have "i + 1 \<le> t" using "1.prems"(3) by simp
    then show ?thesis
      using "1.IH" [OF \<open>i < nodes\<close> a [symmetric] b [symmetric] "1.prems"(1) _ _ "1.prems"(4)]
        "1.prems"(2) unfolding e by simp
  qed
qed

lemma extra_loop_keeps:
  "set links \<subseteq> set (fst (extra_loop j extraLinks nodes R links k))"
proof (induction j extraLinks nodes R links k rule: extra_loop.induct)
  case (1 j extraLinks nodes R links k)
  show ?case
  proof (cases "j < extraLinks")
    case False
    then show ?thesis by (simp add: extra_loop.simps)
  next
    case True
    obtain a k1 where a: "randInt R k 0 (of_int nodes - 1) = (a, k1)"
      by (cases "randInt R k 0 (of_int nodes - 1)") auto
    obtain b k2 where b: "randInt R k1 0 (of_int nodes - 1) = (b, k2)"
      by (cases "randInt R k1 0 (of_int nodes - 1)") auto
    obtain v k3 where v: "randInt R k2 1 5 = (v, k3)" by (cases "randInt R k2 1 5") auto
    show ?thesis
    proof (cases "a = b")
      case False
      then show ?thesis
        using "1.IH"(1) [OF True a [symmetric] b [symmetric] False v [symmetric]] True a b v
        by (simp add: extra_loop.simps [of j])
    next
      case same: True
      then show ?thesis
        using "1.IH"(2) [OF True a [symmetric] b [symmetric]] True a b
        by (simp add: extra_loop.simps [of j])
    qed
  qed
qed

lemma link_edges_mono: "set ls \<subseteq> set ls' \<Longrightarrow> link_edges ls \<subseteq> link_edges ls'"
  by (auto simp: link_edges_def)

lemma graph_links_spanning:
  assumes "unit_interval R" "1 \<le> t" "t < nodes"
  shows "\<exists>s. 0 \<le> s \<and> s < t \<and>
           (''N'' @ string_of_int s, ''N'' @ string_of_int t)
             \<in> link_edges (graph_links (fst (generateGraph nodes extraLinks R k)))"
proof -
  obtain nodeArr k1 where n: "node_array R [0..<nat nodes] k = (nodeArr, k1)"
    by (cases "node_array R [0..<nat nodes] k") auto
  obtain links k2 where s: "spanning_loop 1 nodes R [] k1 = (links, k2)"
    by (cases "spanning_loop 1 nodes R [] k1") auto
  obtain links' k3 where x: "extra_loop 0 extraLinks nodes R links k2 = (links', k3)"
    by (cases "extra_loop 0 extraLinks nodes R links k2") auto
  have g: "graph_links (fst (generateGraph nodes extraLinks R k)) = links'"
    by (simp add: generateGraph_def n s x)
  have "set links \<subseteq> set links'" using extra_loop_keeps [of links 0 extraLinks nodes R k2] x by simp
  then have sub: "link_edges links \<subseteq> link_edges links'" by (rule link_edges_mono)
  from spanning_loop_links [OF assms(1) _ assms(2,3), of "[]" k1] s
  obtain src where "0 \<le> src" "src < t"
    "(''N'' @ string_of_int src, ''N'' @ string_of_int t) \<in> link_edges links" by auto
  then show ?thesis using sub unfolding g by blast
qed

lemma graph_reachable_index:
  assumes "unit_interval R" "0 \<le> t" "t < nodes"
  shows "reachable (graph_links (fst (generateGraph nodes extraLinks R k))) ''N0''
           (''N'' @ string_of_int t)"
  using assms(2,3)
proof (induction "nat t" arbitrary: t rule: less_induct)
  case less
  show ?case
  proof (cases "t = 0")
    case True
    then show ?thesis by (simp add: reachable_def string_of_int_def string_of_nat.simps)
  next
    case False
    then have "1 \<le> t" using less.prems by simp
    from graph_links_spanning [OF assms(1) this less.prems(2), of extraLinks k]
    obtain s where s: "0 \<le> s" "s < t"
      and e: "(''N'' @ string_of_int s, ''N'' @ string_of_int t)
             \<in> link_edges (graph_links (fst (generateGraph nodes extraLinks R k)))" by blast
    have "reachable (graph_links (fst (generateGraph nodes extraLinks R k))) ''N0''
           (''N'' @ string_of_int s)"
      using s less.prems by (intro less.hyps) simp_all
    then show ?thesis using e unfolding reachable_def by (rule rtrancl_into_rtrancl)
  qed
qed

lemma graph_node_ids:
  "map node_id (graph_nodes (fst (generateGraph nodes extraLinks R k))) =
     map (\<lambda>i. ''N'' @ string_of_nat i) [0..<nat nodes]"
  using node_array_ids [of R "[0..<nat nodes]" k]
  by (simp add: generateGraph_def split_beta)

text \<open>
  Claim C7. For every configuration with \<^verbatim>\<open>nodes\<close> at least 1 and every random source
  with values in \<open>[0, 1)\<close>, every node of the output of \<open>generateGraph\<close> is reachable
  from node \<^verbatim>\<open>N0\<close> through the link list, and every node \<^verbatim>\<open>Ni\<close> with \<open>i\<close> at least 1
  has a link from a node \<^verbatim>\<open>Nj\<close> with \<open>j < i\<close>.
\<close>

theorem graph_connected:
  assumes "1 \<le> nodes" "unit_interval R"
  shows "(\<forall>n \<in> set (graph_nodes (fst (generateGraph nodes extraLinks R k))).
            reachable (graph_links (fst (generateGraph nodes extraLinks R k))) ''N0'' (node_id n)) \<and>
         (\<forall>i. 1 \<le> i \<and> i < nodes \<longrightarrow>
            (\<exists>j. 0 \<le> j \<and> j < i \<and>
               (''N'' @ string_of_int j, ''N'' @ string_of_int i)
                 \<in> link_edges (graph_links (fst (generateGraph nodes extraLinks R k)))))"
proof (intro conjI ballI allI impI)
  fix n assume "n \<in> set (graph_nodes (fst (generateGraph nodes extraLinks R k)))"
  then have "node_id n \<in> set (map node_id (graph_nodes (fst (generateGraph nodes extraLinks R k))))"
    by simp
  then obtain i where i: "i < nat nodes" and id: "node_id n = ''N'' @ string_of_nat i"
    unfolding graph_node_ids by auto
  have "string_of_int (int i) = string_of_nat i" by (simp add: string_of_int_def)
  moreover have "reachable (graph_links (fst (generateGraph nodes extraLinks R k))) ''N0''
      (''N'' @ string_of_int (int i))"
    using i by (intro graph_reachable_index [OF assms(2)]) simp_all
  ultimately show "reachable (graph_links (fst (generateGraph nodes extraLinks R k))) ''N0'' (node_id n)"
    by (simp add: id)
next
  fix i assume "1 \<le> i \<and> i < nodes"
  then show "\<exists>j. 0 \<le> j \<and> j < i \<and>
               (''N'' @ string_of_int j, ''N'' @ string_of_int i)
                 \<in> link_edges (graph_links (fst (generateGraph nodes extraLinks R k)))"
    using graph_links_spanning [OF assms(2), of i nodes extraLinks k] by simp
qed

lemma graph_three:
  "fst (generateGraph 3 2 (\<lambda>n. 1 / 2) 0) =
     \<lparr>graph_nodes =
        [\<lparr>node_id = ''N0'', node_label = ''Node 0'', node_weight = 6\<rparr>,
         \<lparr>node_id = ''N1'', node_label = ''Node 1'', node_weight = 6\<rparr>,
         \<lparr>node_id = ''N2'', node_label = ''Node 2'', node_weight = 6\<rparr>],
      graph_links =
        [\<lparr>link_source = ''N0'', link_target = ''N1'', link_weight = 3\<rparr>,
         \<lparr>link_source = ''N1'', link_target = ''N2'', link_weight = 3\<rparr>]\<rparr>"
  by (simp add: generateGraph_def eval_nat_numeral upt_rec [of 0] upt_rec [of "Suc 0"]
      upt_rec [of "Suc (Suc 0)"] upt_rec [of "Suc (Suc (Suc 0))"]
      randInt_def rand_def spanning_loop.simps extra_loop.simps string_of_int_def
      string_of_nat.simps)

theorem graph_connected_witness:
  "(1 :: int) \<le> 3 \<and> unit_interval (\<lambda>n. 1 / 2) \<and>
   \<lparr>node_id = ''N2'', node_label = ''Node 2'', node_weight = 6\<rparr>
     \<in> set (graph_nodes (fst (generateGraph 3 2 (\<lambda>n. 1 / 2) 0))) \<and>
   reachable
     [\<lparr>link_source = ''N0'', link_target = ''N1'', link_weight = 3\<rparr>,
      \<lparr>link_source = ''N1'', link_target = ''N2'', link_weight = 3\<rparr>] ''N0'' ''N2''"
proof -
  have n: "(1 :: int) \<le> 3" by simp
  have u: "unit_interval (\<lambda>n. 1 / 2)" by (simp add: unit_interval_def)
  have m: "\<lparr>node_id = ''N2'', node_label = ''Node 2'', node_weight = 6\<rparr>
     \<in> set (graph_nodes (fst (generateGraph 3 2 (\<lambda>n. 1 / 2) 0)))"
    by (simp add: graph_three)
  from graph_connected [OF n u, of 2 0] m
  have "reachable (graph_links (fst (generateGraph 3 2 (\<lambda>n. 1 / 2) 0))) ''N0''
      (node_id \<lparr>node_id = ''N2'', node_label = ''Node 2'', node_weight = 6\<rparr>)"
    by blast
  then have "reachable
     [\<lparr>link_source = ''N0'', link_target = ''N1'', link_weight = 3\<rparr>,
      \<lparr>link_source = ''N1'', link_target = ''N2'', link_weight = 3\<rparr>] ''N0'' ''N2''"
    by (simp add: graph_three)
  with n u m show ?thesis by blast
qed

section \<open>Trees: depth 3, breadth 2\<close>

lemma upt_two: "[0..<2] = [0, Suc 0]"
  by (simp add: eval_nat_numeral upt_rec [of 0] upt_rec [of "Suc 0"] upt_rec [of "Suc (Suc 0)"])

lemma small_numbers:
  "string_of_int 0 = ''0''" "string_of_int 1 = ''1''" "string_of_int 2 = ''2''"
  "string_of_nat 0 = ''0''" "string_of_nat (Suc 0) = ''1''"
  by (simp_all add: string_of_int_def string_of_nat.simps)

lemma buildTree_0: "buildTree 0 2 level prefix R k = Inr ([], k)"
  by (simp add: buildTree.simps)

lemma buildTree_1:
  "buildTree 1 2 level prefix R k =
     Inr ([Node (prefix @ string_of_int level @ ''-0'') None (Some \<lfloor>R k * 91 + 10\<rfloor>),
           Node (prefix @ string_of_int level @ ''-1'') None (Some \<lfloor>R (Suc k) * 91 + 10\<rfloor>)],
          Suc (Suc k))"
  by (simp add: buildTree.simps [of 1] buildTree_0 upt_two randInt_def rand_def small_numbers)

lemma buildTree_2:
  "buildTree 2 2 level prefix R k =
     Inr ([Node (prefix @ string_of_int level @ ''-0'')
             (Some [Node (prefix @ string_of_int (level + 1) @ ''-0'') None (Some \<lfloor>R k * 91 + 10\<rfloor>),
                    Node (prefix @ string_of_int (level + 1) @ ''-1'') None (Some \<lfloor>R (k + 1) * 91 + 10\<rfloor>)])
             None,
           Node (prefix @ string_of_int level @ ''-1'')
             (Some [Node (prefix @ string_of_int (level + 1) @ ''-0'') None (Some \<lfloor>R (k + 2) * 91 + 10\<rfloor>),
                    Node (prefix @ string_of_int (level + 1) @ ''-1'') None (Some \<lfloor>R (k + 3) * 91 + 10\<rfloor>)])
             None],
          k + 4)"
  by (simp add: buildTree.simps [of 2] buildTree_1 upt_two small_numbers eval_nat_numeral)

lemma generateTree_3_2:
  "generateTree 3 2 R k =
     Inr (Node ''root''
       (Some [Node ''T0-0''
                (Some [Node ''T1-0''
                         (Some [Node ''T2-0'' None (Some \<lfloor>R k * 91 + 10\<rfloor>),
                                Node ''T2-1'' None (Some \<lfloor>R (k + 1) * 91 + 10\<rfloor>)]) None,
                       Node ''T1-1''
                         (Some [Node ''T2-0'' None (Some \<lfloor>R (k + 2) * 91 + 10\<rfloor>),
                                Node ''T2-1'' None (Some \<lfloor>R (k + 3) * 91 + 10\<rfloor>)]) None])
                None,
              Node ''T0-1''
                (Some [Node ''T1-0''
                         (Some [Node ''T2-0'' None (Some \<lfloor>R (k + 4) * 91 + 10\<rfloor>),
                                Node ''T2-1'' None (Some \<lfloor>R (k + 5) * 91 + 10\<rfloor>)]) None,
                       Node ''T1-1''
                         (Some [Node ''T2-0'' None (Some \<lfloor>R (k + 6) * 91 + 10\<rfloor>),
                                Node ''T2-1'' None (Some \<lfloor>R (k + 7) * 91 + 10\<rfloor>)]) None])
                None])
       None, k + 8)"
  by (simp add: generateTree_def buildTree.simps [of 3] buildTree_2 upt_two small_numbers
      eval_nat_numeral)

text \<open>
  Claim C5, as stated, fails: \<^verbatim>\<open>depth\<close> counts the levels below the root, so with
  \<^verbatim>\<open>depth: 3\<close> the grandchildren of the root (level \<^verbatim>\<open>T1\<close>) are inner nodes with two
  children each and no value; the leaves are one level further down. Here for the
  first grandchild, with every random draw \<open>1/2\<close>.
\<close>

theorem tree_grandchildren_counterexample:
  "\<exists>root k'. generateTree 3 2 (\<lambda>n. 1 / 2) 0 = Inr (root, k') \<and>
     node_name (children_of (children_of root ! 0) ! 0) = ''T1-0'' \<and>
     \<not> is_leaf (children_of (children_of root ! 0) ! 0) \<and>
     length (children_of (children_of (children_of root ! 0) ! 0)) = 2 \<and>
     node_val (children_of (children_of root ! 0) ! 0) = None"
  by (simp add: generateTree_3_2 children_of_def is_leaf_def)

text \<open>
  Claim C5, amended. \<^verbatim>\<open>generateTree({depth:3, breadth:2})\<close> returns a root node with
  exactly 2 children, each of which has exactly 2 children and no value, each of which
  again has exactly 2 children and no value; each of those great-grandchildren is a
  leaf that carries a numeric value and has no children.
\<close>

theorem tree_three_levels:
  "\<exists>root k'. generateTree 3 2 R k = Inr (root, k') \<and>
     length (children_of root) = 2 \<and>
     (\<forall>c \<in> set (children_of root).
        length (children_of c) = 2 \<and> node_val c = None \<and>
        (\<forall>g \<in> set (children_of c).
           length (children_of g) = 2 \<and> node_val g = None \<and>
           (\<forall>l \<in> set (children_of g). is_leaf l)))"
  by (simp add: generateTree_3_2 children_of_def is_leaf_def)

theorem tree_three_levels_witness:
  "\<exists>root k'. generateTree 3 2 (\<lambda>n. 1 / 2) 0 = Inr (root, k') \<and>
     length (children_of root) = 2 \<and>
     length (children_of (children_of root ! 1)) = 2 \<and>
     length (children_of (children_of (children_of root ! 1) ! 0)) = 2 \<and>
     children_of (children_of (children_of root ! 1) ! 0) ! 1 = Node ''T2-1'' None (Some 55) \<and>
     is_leaf (children_of (children_of (children_of root ! 1) ! 0) ! 1)"
proof -
  from tree_three_levels [of "\<lambda>n. 1 / 2" 0]
  obtain root k' where r: "generateTree 3 2 (\<lambda>n. 1 / 2) 0 = Inr (root, k')"
    and a: "length (children_of root) = 2"
    and b: "\<forall>c \<in> set (children_of root).
        length (children_of c) = 2 \<and> node_val c = None \<and>
        (\<forall>g \<in> set (children_of c).
           length (children_of g) = 2 \<and> node_val g = None \<and>
           (\<forall>l \<in> set (children_of g). is_leaf l))"
    by blast
  have c: "children_of root ! 1 \<in> set (children_of root)" using a by simp
  with b have c2: "length (children_of (children_of root ! 1)) = 2" by blast
  then have g: "children_of (children_of root ! 1) ! 0 \<in> set (children_of (children_of root ! 1))"
    by simp
  with b c have g2: "length (children_of (children_of (children_of root ! 1) ! 0)) = 2" by blast
  then have l: "children_of (children_of (children_of root ! 1) ! 0) ! 1
      \<in> set (children_of (children_of (children_of root ! 1) ! 0))"
    by simp
  with b c g have lf: "is_leaf (children_of (children_of (children_of root ! 1) ! 0) ! 1)" by blast
  have v: "children_of (children_of (children_of root ! 1) ! 0) ! 1 = Node ''T2-1'' None (Some 55)"
    using r by (auto simp: generateTree_3_2 children_of_def)
  from r a c2 g2 v lf show ?thesis by blast
qed

section \<open>Dispatch: registered, unknown and inherited names\<close>

lemma buildMock_registered:
  assumes "map_of GENERATORS type = Some gen"
  shows "buildMock run type config R k =
     (case run gen config R k of Inl e \<Rightarrow> Inl e | Inr (r, k') \<Rightarrow> Inr (Generated r, k'))"
  using assms by (simp add: buildMock_def get_property_def)

lemma buildMock_unknown:
  assumes "type \<notin> set archetypes" "type \<notin> set Object_prototype"
  shows "buildMock run type config R k = Inl (Error (''Unknown mock type: '' @ type))"
proof -
  have "map_of GENERATORS type = None"
    using assms(1) by (simp add: archetypes_def map_of_eq_None_iff)
  then show ?thesis using assms(2) by (simp add: buildMock_def get_property_def)
qed

text \<open>
  Claim C8 is what the code is written to do: \<open>buildMock_registered\<close> and
  \<open>buildMock_unknown\<close> above are its two halves for every name that is registered or
  that is no property of \<^verbatim>\<open>Object.prototype\<close>. The lookup \<^verbatim>\<open>GENERATORS[type]\<close> misses
  the inherited properties: \<^verbatim>\<open>toString\<close> is not a registered archetype, yet
  \<^verbatim>\<open>buildMock('toString', config)\<close> throws nothing and returns the string
  \<^verbatim>\<open>"[object Undefined]"\<close>.
\<close>

theorem buildMock_inherited_name:
  "''toString'' \<notin> set archetypes \<and>
   buildMock run ''toString'' config R k = Inr (String ''[object Undefined]'', k)"
  by (simp add: archetypes_def buildMock_def get_property_def GENERATORS_def
      Object_prototype_def call_inherited_def)

section \<open>Bundles of mocks\<close>

lemma bundle_loop_skip:
  "buildMockBundle_loop run requests R b k =
     buildMockBundle_loop run (filter (\<lambda>r. recognized r \<noteq> None) requests) R b k"
proof (induction requests arbitrary: b k)
  case Nil
  show ?case by simp
next
  case (Cons r rs)
  show ?case
  proof (cases r)
    case (Str x)
    show ?thesis
    proof (cases "buildMock run x [] R k")
      case (Inl e)
      then show ?thesis using Str by simp
    next
      case (Inr p)
      obtain v k1 where p: "p = (v, k1)" by (cases p)
      have "buildMockBundle_loop run rs R (b(x \<mapsto> v)) k1 =
          buildMockBundle_loop run (filter (\<lambda>r. recognized r \<noteq> None) rs) R (b(x \<mapsto> v)) k1"
        by (rule Cons.IH)
      then show ?thesis using Str Inr p by (simp del: not_None_eq)
    qed
  next
    case (Obj ty c)
    show ?thesis
    proof (cases "buildMock run (type_key ty) (config_or_empty c) R k")
      case (Inl e)
      then show ?thesis using Obj by simp
    next
      case (Inr p)
      obtain v k1 where p: "p = (v, k1)" by (cases p)
      have "buildMockBundle_loop run rs R (b(type_key ty \<mapsto> v)) k1 =
          buildMockBundle_loop run (filter (\<lambda>r. recognized r \<noteq> None) rs) R
            (b(type_key ty \<mapsto> v)) k1"
        by (rule Cons.IH)
      then show ?thesis using Obj Inr p by (simp del: not_None_eq)
    qed
  next
    case Other
    then show ?thesis using Cons.IH [of b k] by (simp del: not_None_eq)
  qed
qed

lemma bundle_loop_error:
  assumes "buildMockBundle_loop run requests R b k = Inl e"
  shows "\<exists>t c k1. Some (t, c) \<in> recognized ` set requests \<and> buildMock run t c R k1 = Inl e"
  using assms
proof (induction requests arbitrary: b k)
  case Nil
  then show ?case by simp
next
  case (Cons r rs)
  have rest: "\<exists>t c k1. Some (t, c) \<in> recognized ` set (r # rs) \<and> buildMock run t c R k1 = Inl e"
    if "buildMockBundle_loop run rs R b1 k1 = Inl e" for b1 k1
    using Cons.IH [OF that] by auto
  have this_one: "\<exists>t' c' k1. Some (t', c') \<in> recognized ` set (r # rs) \<and> buildMock run t' c' R k1 = Inl e"
    if "recognized r = Some (t, c)" "buildMock run t c R k = Inl e" for t c
  proof -
    have "Some (t, c) \<in> recognized ` set (r # rs)" using that(1) by (simp add: image_iff)
    then show ?thesis using that(2) by blast
  qed
  show ?case
  proof (cases r)
    case (Str x)
    then show ?thesis
      using Cons.prems rest this_one [of x "[]"] by (auto split: sum.splits)
  next
    case (Obj ty c)
    then show ?thesis
      using Cons.prems rest this_one [of "type_key ty" "config_or_empty c"]
      by (auto split: sum.splits)
  next
    case Other
    then show ?thesis using Cons.prems rest by simp
  qed
qed

lemma bundle_loop_step:
  assumes "recognized r = Some (t, c)" "buildMock run t c R k = Inr (v, k1)"
    and "dom b' = dom (b(t \<mapsto> v)) \<union> {t. \<exists>c. Some (t, c) \<in> recognized ` set rs}"
    and "\<forall>t' w. b' t' = Some w \<longrightarrow>
            (b(t \<mapsto> v)) t' = Some w \<or>
            (\<exists>c k1 k2. Some (t', c) \<in> recognized ` set rs \<and> buildMock run t' c R k1 = Inr (w, k2))"
  shows "dom b' = dom b \<union> {t. \<exists>c. Some (t, c) \<in> recognized ` set (r # rs)} \<and>
         (\<forall>t' w. b' t' = Some w \<longrightarrow>
            b t' = Some w \<or>
            (\<exists>c k1 k2. Some (t', c) \<in> recognized ` set (r # rs) \<and>
               buildMock run t' c R k1 = Inr (w, k2)))"
proof (intro conjI allI impI)
  have m: "Some (t, c) \<in> recognized ` set (r # rs)" using assms(1) by (simp add: image_iff)
  show "dom b' = dom b \<union> {t. \<exists>c. Some (t, c) \<in> recognized ` set (r # rs)}"
  proof (rule set_eqI)
    fix x
    show "x \<in> dom b' \<longleftrightarrow> x \<in> dom b \<union> {t. \<exists>c. Some (t, c) \<in> recognized ` set (r # rs)}"
    proof (cases "x = t")
      case True
      then show ?thesis using m assms(3) by auto
    next
      case False
      have "(\<exists>c'. Some (x, c') \<in> recognized ` set (r # rs)) \<longleftrightarrow>
          (\<exists>c'. Some (x, c') \<in> recognized ` set rs)"
        using False assms(1) by auto
      then show ?thesis using False assms(3) by auto
    qed
  qed
next
  fix t' w assume w: "b' t' = Some w"
  with assms(4) have "(b(t \<mapsto> v)) t' = Some w \<or>
      (\<exists>c k1 k2. Some (t', c) \<in> recognized ` set rs \<and> buildMock run t' c R k1 = Inr (w, k2))"
    by blast
  then show "b t' = Some w \<or>
      (\<exists>c k1 k2. Some (t', c) \<in> recognized ` set (r # rs) \<and> buildMock run t' c R k1 = Inr (w, k2))"
  proof
    assume u: "(b(t \<mapsto> v)) t' = Some w"
    show ?thesis
    proof (cases "t' = t")
      case True
      then have "w = v" using u by simp
      then show ?thesis using assms(1,2) True
        by (intro disjI2 exI [of _ c] exI [of _ k] exI [of _ k1]) (simp add: image_iff)
    next
      case False
      then show ?thesis using u by simp
    qed
  next
    assume "\<exists>c k1 k2. Some (t', c) \<in> recognized ` set rs \<and> buildMock run t' c R k1 = Inr (w, k2)"
    then show ?thesis by auto
  qed
qed

lemma bundle_loop_result:
  assumes "buildMockBundle_loop run requests R b k = Inr (b', k')"
  shows "dom b' = dom b \<union> {t. \<exists>c. Some (t, c) \<in> recognized ` set requests} \<and>
         (\<forall>t v. b' t = Some v \<longrightarrow>
            b t = Some v \<or>
            (\<exists>c k1 k2. Some (t, c) \<in> recognized ` set requests \<and>
               buildMock run t c R k1 = Inr (v, k2)))"
  using assms
proof (induction requests arbitrary: b k)
  case Nil
  then show ?case by auto
next
  case (Cons r rs)
  show ?case
  proof (cases r)
    case (Str x)
    from Cons.prems Str obtain v k1 where bm: "buildMock run x [] R k = Inr (v, k1)"
      and l: "buildMockBundle_loop run rs R (b(x \<mapsto> v)) k1 = Inr (b', k')"
      by (auto split: sum.splits)
    have rc: "recognized r = Some (x, [])" using Str by simp
    from Cons.IH [OF l] show ?thesis by (intro bundle_loop_step [OF rc bm]) blast+
  next
    case (Obj ty c)
    from Cons.prems Obj obtain v k1 where
      bm: "buildMock run (type_key ty) (config_or_empty c) R k = Inr (v, k1)"
      and l: "buildMockBundle_loop run rs R (b(type_key ty \<mapsto> v)) k1 = Inr (b', k')"
      by (auto split: sum.splits)
    have rc: "recognized r = Some (type_key ty, config_or_empty c)" using Obj by simp
    from Cons.IH [OF l] show ?thesis by (intro bundle_loop_step [OF rc bm]) blast+
  next
    case Other
    then have l: "buildMockBundle_loop run rs R b k = Inr (b', k')" using Cons.prems by simp
    have "recognized ` set (r # rs) = insert None (recognized ` set rs)" using Other by simp
    then show ?thesis using Cons.IH [OF l] by simp
  qed
qed

lemma bundle_loop_recognized:
  "recognized r = Some (t, c) \<Longrightarrow>
   buildMockBundle_loop run (r # rs) R b k =
     (case buildMock run t c R k of
        Inl e \<Rightarrow> Inl e
      | Inr (v, k1) \<Rightarrow> buildMockBundle_loop run rs R (b(t \<mapsto> v)) k1)"
  by (cases r) auto

lemma bundle_loop_append:
  "buildMockBundle_loop run (xs @ ys) R b k =
     (case buildMockBundle_loop run xs R b k of
        Inl e \<Rightarrow> Inl e
      | Inr (b1, k1) \<Rightarrow> buildMockBundle_loop run ys R b1 k1)"
proof (induction xs arbitrary: b k)
  case Nil
  show ?case by simp
next
  case (Cons r rs)
  show ?case
  proof (cases "recognized r")
    case None
    then have "r = Other" by (cases r) simp_all
    then show ?thesis using Cons.IH [of b k] by simp
  next
    case (Some p)
    obtain t c where p: "p = (t, c)" by (cases p)
    have rc: "recognized r = Some (t, c)" using Some p by simp
    show ?thesis
    proof (cases "buildMock run t c R k")
      case (Inl e)
      then show ?thesis by (simp add: bundle_loop_recognized [OF rc])
    next
      case (Inr q)
      obtain v k1 where q: "q = (v, k1)" by (cases q)
      have "buildMockBundle_loop run ((r # rs) @ ys) R b k =
          buildMockBundle_loop run (rs @ ys) R (b(t \<mapsto> v)) k1"
        unfolding append_Cons bundle_loop_recognized [OF rc] Inr q by simp
      also have "\<dots> =
          (case buildMockBundle_loop run rs R (b(t \<mapsto> v)) k1 of
             Inl e \<Rightarrow> Inl e
           | Inr (b1, k1) \<Rightarrow> buildMockBundle_loop run ys R b1 k1)"
        by (rule Cons.IH)
      also have "buildMockBundle_loop run rs R (b(t \<mapsto> v)) k1 =
          buildMockBundle_loop run (r # rs) R b k"
        unfolding bundle_loop_recognized [OF rc] Inr q by simp
      finally show ?thesis .
    qed
  qed
qed

lemma bundle_loop_keeps:
  assumes "buildMockBundle_loop run ys R b k = Inr (b', k')"
    and "\<forall>r \<in> set ys. map_option fst (recognized r) \<noteq> Some t"
  shows "b' t = b t"
  using assms
proof (induction ys arbitrary: b k)
  case Nil
  then show ?case by simp
next
  case (Cons r rs)
  have rest: "\<forall>r \<in> set rs. map_option fst (recognized r) \<noteq> Some t"
    using Cons.prems(2) by simp
  show ?case
  proof (cases "recognized r")
    case None
    then have "r = Other" by (cases r) simp_all
    then show ?thesis using Cons.prems(1) Cons.IH [OF _ rest, of b k] by simp
  next
    case (Some p)
    obtain t' c where p: "p = (t', c)" by (cases p)
    have rc: "recognized r = Some (t', c)" using Some p by simp
    have ne: "t' \<noteq> t" using Cons.prems(2) rc by auto
    from Cons.prems(1) obtain v k1 where
      l: "buildMockBundle_loop run rs R (b(t' \<mapsto> v)) k1 = Inr (b', k')"
      by (auto simp: bundle_loop_recognized [OF rc] split: sum.splits)
    from Cons.IH [OF l rest] ne show ?thesis by simp
  qed
qed

lemma bundle_loop_last:
  assumes "buildMockBundle_loop run requests R b k = Inr (b', k')"
    and "j < length requests" "recognized (requests ! j) = Some (t, c)"
    and "\<forall>r \<in> set (drop (Suc j) requests). map_option fst (recognized r) \<noteq> Some t"
  shows "\<exists>bj kj v kj'.
           buildMockBundle_loop run (take j requests) R b k = Inr (bj, kj) \<and>
           buildMock run t c R kj = Inr (v, kj') \<and> b' t = Some v"
proof -
  have "requests = take j requests @ requests ! j # drop (Suc j) requests"
    using assms(2) by (rule id_take_nth_drop)
  then have "buildMockBundle_loop run (take j requests @ requests ! j # drop (Suc j) requests)
      R b k = Inr (b', k')"
    using assms(1) by simp
  then obtain bj kj where
    before: "buildMockBundle_loop run (take j requests) R b k = Inr (bj, kj)"
    and from_j: "buildMockBundle_loop run (requests ! j # drop (Suc j) requests) R bj kj =
      Inr (b', k')"
    by (auto simp: bundle_loop_append split: sum.splits)
  from from_j obtain v kj' where
    call: "buildMock run t c R kj = Inr (v, kj')"
    and after: "buildMockBundle_loop run (drop (Suc j) requests) R (bj(t \<mapsto> v)) kj' =
      Inr (b', k')"
    by (auto simp: bundle_loop_recognized [OF assms(3)] split: sum.splits)
  have "b' t = (bj(t \<mapsto> v)) t" using after assms(4) by (rule bundle_loop_keeps)
  then have "b' t = Some v" by simp
  with before call show ?thesis by blast
qed

text \<open>
  Claim C10, as stated, has \<open>buildMockBundle\<close> return an object for every request
  list. A request for a type that \<open>buildMock\<close> rejects makes the whole call throw: for
  the list \<^verbatim>\<open>['nope']\<close> the error \<^verbatim>\<open>Unknown mock type: nope\<close>.
\<close>

theorem bundle_unknown_type_counterexample:
  "\<forall>run R k. buildMockBundle run [Str ''nope''] R k = Inl (Error ''Unknown mock type: nope'')"
  by (simp add: buildMockBundle_def buildMock_def get_property_def GENERATORS_def
      Object_prototype_def)

text \<open>
  Claim C10, amended. For every request list: an entry that is neither a string nor
  an object is skipped silently (the call is the call on the list without such
  entries); when \<open>buildMockBundle\<close> returns, the object is keyed by exactly the types of
  the string and object entries (\<^verbatim>\<open>r\<close> for a string \<^verbatim>\<open>r\<close>, \<^verbatim>\<open>r.type\<close> for an object), and
  the value under a key is what \<open>buildMock\<close> returned for an entry with that type, called
  with \<^verbatim>\<open>{}\<close> for a string and \<^verbatim>\<open>r.config || {}\<close> for an object; of several entries with
  the same type the last one gives the value: for an entry at position \<open>j\<close> that no later
  entry shares its type with, the value under its type is what its own \<open>buildMock\<close> call
  returned, made after the calls of the entries before it; when \<open>buildMockBundle\<close>
  throws, the error is that of the \<open>buildMock\<close> call of one of these entries.
\<close>

theorem bundle_of_recognized_requests:
  "buildMockBundle run requests R k =
     buildMockBundle run (filter (\<lambda>r. recognized r \<noteq> None) requests) R k \<and>
   (\<forall>b k'. buildMockBundle run requests R k = Inr (b, k') \<longrightarrow>
      dom b = {t. \<exists>c. Some (t, c) \<in> recognized ` set requests} \<and>
      (\<forall>t v. b t = Some v \<longrightarrow>
         (\<exists>c k1 k2. Some (t, c) \<in> recognized ` set requests \<and>
            buildMock run t c R k1 = Inr (v, k2))) \<and>
      (\<forall>j t c. j < length requests \<and> recognized (requests ! j) = Some (t, c) \<and>
         (\<forall>r \<in> set (drop (Suc j) requests). map_option fst (recognized r) \<noteq> Some t) \<longrightarrow>
         (\<exists>bj kj v kj'.
            buildMockBundle run (take j requests) R k = Inr (bj, kj) \<and>
            buildMock run t c R kj = Inr (v, kj') \<and> b t = Some v))) \<and>
   (\<forall>e. buildMockBundle run requests R k = Inl e \<longrightarrow>
      (\<exists>t c k1. Some (t, c) \<in> recognized ` set requests \<and> buildMock run t c R k1 = Inl e))"
proof (intro conjI allI impI)
  show "buildMockBundle run requests R k =
     buildMockBundle run (filter (\<lambda>r. recognized r \<noteq> None) requests) R k"
    unfolding buildMockBundle_def by (rule bundle_loop_skip)
next
  fix b k' assume r: "buildMockBundle run requests R k = Inr (b, k')"
  then have l: "buildMockBundle_loop run requests R Map.empty k = Inr (b, k')"
    by (simp add: buildMockBundle_def)
  from bundle_loop_result [OF l]
  show "dom b = {t. \<exists>c. Some (t, c) \<in> recognized ` set requests}" by simp
  {
    fix t v assume "b t = Some v"
    with bundle_loop_result [OF l]
    show "\<exists>c k1 k2. Some (t, c) \<in> recognized ` set requests \<and> buildMock run t c R k1 = Inr (v, k2)"
      by auto
  }
  fix j t c
  assume a: "j < length requests \<and> recognized (requests ! j) = Some (t, c) \<and>
    (\<forall>r \<in> set (drop (Suc j) requests). map_option fst (recognized r) \<noteq> Some t)"
  then have j: "j < length requests" and rc: "recognized (requests ! j) = Some (t, c)"
    and later: "\<forall>r \<in> set (drop (Suc j) requests). map_option fst (recognized r) \<noteq> Some t"
    by blast+
  from bundle_loop_last [OF l j rc later]
  show "\<exists>bj kj v kj'.
      buildMockBundle run (take j requests) R k = Inr (bj, kj) \<and>
      buildMock run t c R kj = Inr (v, kj') \<and> b t = Some v"
    by (simp add: buildMockBundle_def)
next
  fix e assume "buildMockBundle run requests R k = Inl e"
  then show "\<exists>t c k1. Some (t, c) \<in> recognized ` set requests \<and> buildMock run t c R k1 = Inl e"
    unfolding buildMockBundle_def by (rule bundle_loop_error)
qed

lemma bundle_usage:
  "buildMockBundle (\<lambda>gen config R k. Inr ((gen, config, k), Suc k))
     [Str ''line'', Other, Obj (Some ''line'') (Some [(''points'', 12)]),
      Obj (Some ''bar'') (Some [(''categories'', 12)])] (\<lambda>n. 1 / 2) 0 =
   Inr ([''line'' \<mapsto> Generated (GenLine, [(''points'', 12)], 1),
         ''bar'' \<mapsto> Generated (GenBar, [(''categories'', 12)], 2)], 3)"
  by (simp add: buildMockBundle_def buildMock_def get_property_def GENERATORS_def
      type_key_def config_or_empty_def eval_nat_numeral)

lemma bundle_usage_line:
  "buildMock (\<lambda>gen config R k. Inr ((gen, config, k), Suc k)) ''line'' [(''points'', 12)]
     (\<lambda>n. 1 / 2) kj = Inr (Generated (GenLine, [(''points'', 12)], kj), Suc kj)"
  by (simp add: buildMock_def get_property_def GENERATORS_def)

lemma bundle_usage_before:
  "buildMockBundle (\<lambda>gen config R k. Inr ((gen, config, k), Suc k))
     (take 2 [Str ''line'', Other, Obj (Some ''line'') (Some [(''points'', 12)]),
      Obj (Some ''bar'') (Some [(''categories'', 12)])]) (\<lambda>n. 1 / 2) 0 =
   Inr ([''line'' \<mapsto> Generated (GenLine, [], 0)], 1)"
  by (simp add: buildMockBundle_def buildMock_def get_property_def GENERATORS_def
      eval_nat_numeral)

theorem bundle_of_recognized_requests_witness:
  "buildMockBundle (\<lambda>gen config R k. Inr ((gen, config, k), Suc k))
     [Str ''line'', Other, Obj (Some ''line'') (Some [(''points'', 12)]),
      Obj (Some ''bar'') (Some [(''categories'', 12)])] (\<lambda>n. 1 / 2) 0 =
   Inr ([''line'' \<mapsto> Generated (GenLine, [(''points'', 12)], 1),
         ''bar'' \<mapsto> Generated (GenBar, [(''categories'', 12)], 2)], 3) \<and>
   dom [''line'' \<mapsto> Generated (GenLine, [(''points'', 12 :: real)], 1 :: nat),
        ''bar'' \<mapsto> Generated (GenBar, [(''categories'', 12 :: real)], 2)] =
     {t. \<exists>c. Some (t, c) \<in>
        recognized ` set [Str ''line'', Other, Obj (Some ''line'') (Some [(''points'', 12)]),
          Obj (Some ''bar'') (Some [(''categories'', 12)])]} \<and>
   (2 :: nat) < length [Str ''line'', Other, Obj (Some ''line'') (Some [(''points'', 12)]),
      Obj (Some ''bar'') (Some [(''categories'', 12)])] \<and>
   recognized ([Str ''line'', Other, Obj (Some ''line'') (Some [(''points'', 12)]),
      Obj (Some ''bar'') (Some [(''categories'', 12)])] ! 2) = Some (''line'', [(''points'', 12)]) \<and>
   buildMockBundle (\<lambda>gen config R k. Inr ((gen, config, k), Suc k))
     (take 2 [Str ''line'', Other, Obj (Some ''line'') (Some [(''points'', 12)]),
      Obj (Some ''bar'') (Some [(''categories'', 12)])]) (\<lambda>n. 1 / 2) 0 =
     Inr ([''line'' \<mapsto> Generated (GenLine, [], 0)], 1) \<and>
   (\<exists>bj kj v kj'.
      buildMockBundle (\<lambda>gen config R k. Inr ((gen, config, k), Suc k))
        (take 2 [Str ''line'', Other, Obj (Some ''line'') (Some [(''points'', 12)]),
         Obj (Some ''bar'') (Some [(''categories'', 12)])]) (\<lambda>n. 1 / 2) 0 = Inr (bj, kj) \<and>
      buildMock (\<lambda>gen config R k. Inr ((gen, config, k), Suc k)) ''line'' [(''points'', 12)]
        (\<lambda>n. 1 / 2) kj = Inr (v, kj') \<and>
      [''line'' \<mapsto> Generated (GenLine, [(''points'', 12 :: real)], 1 :: nat),
       ''bar'' \<mapsto> Generated (GenBar, [(''categories'', 12 :: real)], 2)] ''line'' = Some v) \<and>
   [''line'' \<mapsto> Generated (GenLine, [(''points'', 12 :: real)], 1 :: nat),
    ''bar'' \<mapsto> Generated (GenBar, [(''categories'', 12 :: real)], 2)] ''line'' =
     Some (Generated (GenLine, [(''points'', 12)], 1))"
proof -
  let ?run = "\<lambda>(gen :: generator) (config :: config) (R :: random_source) (k :: nat).
    Inr ((gen, config, k), Suc k) :: error + (generator \<times> config \<times> nat) \<times> nat"
  let ?requests = "[Str ''line'', Other, Obj (Some ''line'') (Some [(''points'', 12)]),
      Obj (Some ''bar'') (Some [(''categories'', 12)])]"
  let ?b = "[''line'' \<mapsto> Generated (GenLine, [(''points'', 12 :: real)], 1 :: nat),
        ''bar'' \<mapsto> Generated (GenBar, [(''categories'', 12 :: real)], 2)]"
  note t = bundle_of_recognized_requests [of ?run ?requests "\<lambda>n. 1 / 2" 0]
  have j: "(2 :: nat) < length ?requests" by simp
  have rc: "recognized (?requests ! 2) = Some (''line'', [(''points'', 12)])"
    by (simp add: type_key_def config_or_empty_def)
  have later: "\<forall>r \<in> set (drop (Suc 2) ?requests). map_option fst (recognized r) \<noteq> Some ''line''"
    by (simp add: type_key_def)
  from t bundle_usage have d: "dom ?b = {t. \<exists>c. Some (t, c) \<in> recognized ` set ?requests}"
    by blast
  from t bundle_usage j rc later have l: "\<exists>bj kj v kj'.
      buildMockBundle ?run (take 2 ?requests) (\<lambda>n. 1 / 2) 0 = Inr (bj, kj) \<and>
      buildMock ?run ''line'' [(''points'', 12)] (\<lambda>n. 1 / 2) kj = Inr (v, kj') \<and>
      ?b ''line'' = Some v"
    by blast
  have v: "?b ''line'' = Some (Generated (GenLine, [(''points'', 12)], 1))" by simp
  show ?thesis using bundle_usage d j rc bundle_usage_before l v by blast
qed
section \<open>Bars: six rectangles, side by side in their group\<close>

lemma upt_categories: "[0..<3] = [0, 1, 2 :: nat]"
  by (simp add: eval_nat_numeral upt_rec [of 0] upt_rec [of "Suc 0"] upt_rec [of "Suc (Suc 0)"]
      upt_rec [of "Suc (Suc (Suc 0))"])

lemma upt_series: "[1..<Suc 2] = [1, 2 :: nat]"
  by (simp add: eval_nat_numeral upt_rec [of 0] upt_rec [of "Suc 0"] upt_rec [of "Suc (Suc 0)"]
      upt_rec [of "Suc (Suc (Suc 0))"])

lemma bar_series_rectangle:
  assumes "at_index (u_data u) (int s) = Some row" "at_index row (int i) = Some (Some v)"
  shows "bar_series u (group_left u i) (group_width u / of_nat S) i s ctx =
     Inr (ctx\<lparr>fillStyle := palette ! ((s - 1) mod 10),
               drawn := drawn ctx @ [bar_rectangle u S i s v]\<rparr>)"
  using assms
  by (simp add: bar_series_def Let_def fillRect_def bar_rectangle_def palette_def)

lemma bar_category_two:
  assumes "at_index (u_data u) 1 = Some r1" "at_index r1 (int i) = Some (Some a)"
    and "at_index (u_data u) 2 = Some r2" "at_index r2 (int i) = Some (Some b)"
  shows "\<exists>ctx'. bar_category u (group_width u) (group_width u / of_nat 2) 2 i ctx = Inr ctx' \<and>
           drawn ctx' = drawn ctx @ [bar_rectangle u 2 i 1 a, bar_rectangle u 2 i 2 b]"
proof -
  have l: "valToPos u (of_nat i) ''x'' - group_width u / 2 = group_left u i"
    by (simp add: group_left_def group_width_def)
  define c1 where "c1 = ctx\<lparr>fillStyle := palette ! ((1 - 1) mod 10),
      drawn := drawn ctx @ [bar_rectangle u 2 i 1 a]\<rparr>"
  define c2 where "c2 = c1\<lparr>fillStyle := palette ! ((2 - 1) mod 10),
      drawn := drawn c1 @ [bar_rectangle u 2 i 2 b]\<rparr>"
  have s1: "bar_series u (group_left u i) (group_width u / of_nat 2) i 1 ctx = Inr c1"
    unfolding c1_def using assms(1,2) by (intro bar_series_rectangle) simp_all
  have s2: "bar_series u (group_left u i) (group_width u / of_nat 2) i 2 c1 = Inr c2"
    unfolding c2_def using assms(3,4) by (intro bar_series_rectangle) simp_all
  have "bar_category u (group_width u) (group_width u / of_nat 2) 2 i ctx =
      for_each (bar_series u (group_left u i) (group_width u / of_nat 2) i) [1, 2] ctx"
    unfolding bar_category_def Let_def l upt_series by (rule refl)
  also have "\<dots> = Inr c2" using s1 s2 by simp
  finally have "bar_category u (group_width u) (group_width u / of_nat 2) 2 i ctx = Inr c2" .
  moreover have "drawn c2 = drawn ctx @ [bar_rectangle u 2 i 1 a, bar_rectangle u 2 i 2 b]"
    by (simp add: c2_def c1_def)
  ultimately show ?thesis by blast
qed

lemma bar_six:
  assumes "u_series_length u = 3"
    and "u_data u = [[Some x0, Some x1, Some x2], [Some a0, Some a1, Some a2],
                     [Some b0, Some b1, Some b2]]"
  shows "\<exists>ctx'. barPlugin_draw u ctx = Inr ctx' \<and>
     drawn ctx' = drawn ctx @
       [bar_rectangle u 2 0 1 a0, bar_rectangle u 2 0 2 b0,
        bar_rectangle u 2 1 1 a1, bar_rectangle u 2 1 2 b1,
        bar_rectangle u 2 2 1 a2, bar_rectangle u 2 2 2 b2]"
proof -
  have r1: "at_index (u_data u) 1 = Some [Some a0, Some a1, Some a2]"
    and r2: "at_index (u_data u) 2 = Some [Some b0, Some b1, Some b2]"
    and r0: "at_index (u_data u) 0 = Some [Some x0, Some x1, Some x2]"
    by (simp_all add: assms(2) at_index_def)
  have c: "\<exists>ctx'. bar_category u (group_width u) (group_width u / of_nat 2) 2 i c = Inr ctx' \<and>
           drawn ctx' = drawn c @ [bar_rectangle u 2 i 1 ([a0, a1, a2] ! i),
                                   bar_rectangle u 2 i 2 ([b0, b1, b2] ! i)]"
    if "i < 3" for i c
  proof -
    have "at_index [Some a0, Some a1, Some a2] (int i) = Some (Some ([a0, a1, a2] ! i))"
      "at_index [Some b0, Some b1, Some b2] (int i) = Some (Some ([b0, b1, b2] ! i))"
      using that by (auto simp: at_index_def nth_Cons split: nat.splits)
    then show ?thesis using r1 r2 by (intro bar_category_two)
  qed
  from c [of 0 ctx] obtain c0 where
    c0: "bar_category u (group_width u) (group_width u / of_nat 2) 2 0 ctx = Inr c0"
    and d0: "drawn c0 = drawn ctx @ [bar_rectangle u 2 0 1 a0, bar_rectangle u 2 0 2 b0]"
    by auto
  from c [of 1 c0] obtain c1 where
    c1: "bar_category u (group_width u) (group_width u / of_nat 2) 2 1 c0 = Inr c1"
    and d1: "drawn c1 = drawn c0 @ [bar_rectangle u 2 1 1 a1, bar_rectangle u 2 1 2 b1]"
    by auto
  from c [of 2 c1] obtain c2 where
    c2: "bar_category u (group_width u) (group_width u / of_nat 2) 2 2 c1 = Inr c2"
    and d2: "drawn c2 = drawn c1 @ [bar_rectangle u 2 2 1 a2, bar_rectangle u 2 2 2 b2]"
    by auto
  have g: "bar_gap u (length [Some x0, Some x1, Some x2]) * 0.8 = group_width u"
    by (simp add: bar_gap_def group_width_def)
  have n: "nat (int (u_series_length u) - 1) = 2" "of_int (int (u_series_length u) - 1) = (of_nat 2 :: real)"
    "\<not> int (u_series_length u) - 1 \<le> 0"
    by (simp_all add: assms(1))
  have len: "[0..<length [Some x0, Some x1, Some x2]] = [0, 1, 2]"
    by (simp add: upt_categories)
  have "barPlugin_draw u ctx =
      for_each (bar_category u (group_width u) (group_width u / of_nat 2) 2) [0, 1, 2] ctx"
    unfolding barPlugin_draw_def Let_def r0 option.case g n len by (simp add: assms(1))
  also have "\<dots> = Inr c2" using c0 c1 c2 by simp
  finally have "barPlugin_draw u ctx = Inr c2" .
  then show ?thesis using d0 d1 d2 by simp
qed

lemma Math_round_bounds: "x - 1 / 2 < of_int (Math_round x)" "of_int (Math_round x) \<le> x + 1 / 2"
  unfolding Math_round_def by linarith+

lemma bar_width_nonneg:
  assumes "15 / 4 \<le> valToPos u 1 ''x'' - valToPos u 0 ''x''"
  shows "0 \<le> Math_round (group_width u / 2 - 2)"
proof -
  have "0 \<le> group_width u / 2 - 2 + 1 / 2" using assms by (simp add: group_width_def)
  then show ?thesis unfolding Math_round_def by simp
qed

lemma bar_no_overlap:
  assumes "15 / 4 \<le> valToPos u 1 ''x'' - valToPos u 0 ''x''"
  shows "\<not> overlap_x (bar_rectangle u 2 i 1 a) (bar_rectangle u 2 i 2 b)"
proof -
  let ?L = "group_left u i" and ?bw = "group_width u / 2"
  have w: "0 \<le> Math_round (?bw - 2)" using assms by (rule bar_width_nonneg)
  have "Math_round ?L + Math_round (?bw - 2) = \<lfloor>?L + 1 / 2\<rfloor> + \<lfloor>?bw - 2 + 1 / 2\<rfloor>"
    by (simp add: Math_round_def)
  also have "\<dots> \<le> \<lfloor>(?L + 1 / 2) + (?bw - 2 + 1 / 2)\<rfloor>" by (rule le_floor_add)
  also have "\<dots> \<le> \<lfloor>?L + ?bw + 1 / 2\<rfloor>" by (intro floor_mono) simp
  also have "\<dots> = Math_round (?L + ?bw)" by (simp add: Math_round_def)
  finally have "Math_round ?L + Math_round (?bw - 2) \<le> Math_round (?L + ?bw)" .
  then have "(of_int (Math_round ?L) :: real) + of_int (Math_round (?bw - 2))
      \<le> of_int (Math_round (?L + ?bw))"
    by (simp only: of_int_add [symmetric] of_int_le_iff)
  then show ?thesis using w by (simp add: overlap_x_def bar_rectangle_def)
qed

lemma bar_in_group:
  assumes "15 / 4 \<le> valToPos u 1 ''x'' - valToPos u 0 ''x''" "1 \<le> s" "s \<le> 2"
  shows "group_left u i - 1 / 2 \<le> fst (x_extent (bar_rectangle u 2 i s v)) \<and>
         snd (x_extent (bar_rectangle u 2 i s v)) \<le> group_left u i + group_width u"
proof -
  let ?L = "group_left u i" and ?bw = "group_width u / 2"
  let ?x = "?L + of_nat (s - 1) * ?bw"
  have w: "0 \<le> Math_round (?bw - 2)" using assms(1) by (rule bar_width_nonneg)
  have bw: "0 \<le> ?bw" using assms(1) by (simp add: group_width_def)
  have s: "s = 1 \<or> s = 2" using assms(2,3) by auto
  have lo: "?L \<le> ?x" using bw by simp
  have hi: "?x + ?bw \<le> ?L + group_width u" using s bw by auto
  note rx = Math_round_bounds [of ?x] and rw = Math_round_bounds [of "?bw - 2"]
  have "?L - 1 / 2 \<le> of_int (Math_round ?x)" using rx(1) lo by linarith
  moreover have "of_int (Math_round ?x) + of_int (Math_round (?bw - 2)) \<le> ?L + group_width u"
    using rx(2) rw(2) hi by linarith
  ultimately show ?thesis using w by (simp add: bar_rectangle_def)
qed

text \<open>
  Claim C3, as stated, holds for no surface in particular, so for every value-to-pixel
  transform. The width of a bar is \<^verbatim>\<open>Math.round(barWidth - 2)\<close>, which is negative when
  one category spans less than 3.75 pixels, and a rectangle of negative width extends
  to the left of its \<open>x\<close>. With three categories one pixel apart (the transform is the
  identity) the two bars of the first category are both drawn from \<open>x = 0\<close> with width
  \<open>-2\<close>: they cover the same pixels.
\<close>

theorem bar_narrow_counterexample:
  "bar_rectangle
     \<lparr>u_data = [[Some 0, Some 1, Some 2], [Some 1, Some 2, Some 3], [Some 4, Some 5, Some 6]],
        u_series_length = 3, valToPos = (\<lambda>v scale. v),
        bbox_left = 0, bbox_top = 0, bbox_width = 2, bbox_height = 6\<rparr>
     2 0 1 1 = FillRect ''#2563eb'' 0 0 (- 2) 1 \<and>
   bar_rectangle
     \<lparr>u_data = [[Some 0, Some 1, Some 2], [Some 1, Some 2, Some 3], [Some 4, Some 5, Some 6]],
        u_series_length = 3, valToPos = (\<lambda>v scale. v),
        bbox_left = 0, bbox_top = 0, bbox_width = 2, bbox_height = 6\<rparr>
     2 0 2 4 = FillRect ''#16a34a'' 0 0 (- 2) 4 \<and>
   (\<exists>ctx'. barPlugin_draw
       \<lparr>u_data = [[Some 0, Some 1, Some 2], [Some 1, Some 2, Some 3], [Some 4, Some 5, Some 6]],
        u_series_length = 3, valToPos = (\<lambda>v scale. v),
        bbox_left = 0, bbox_top = 0, bbox_width = 2, bbox_height = 6\<rparr>
       \<lparr>fillStyle = ''#000000'', font = ''10px sans-serif'', textAlign = ''start'',
        textBaseline = ''alphabetic'', drawn = []\<rparr> = Inr ctx' \<and>
      take 2 (drawn ctx') = [FillRect ''#2563eb'' 0 0 (- 2) 1, FillRect ''#16a34a'' 0 0 (- 2) 4]) \<and>
   overlap_x (FillRect ''#2563eb'' 0 0 (- 2) 1) (FillRect ''#16a34a'' 0 0 (- 2) 4)"
proof -
  let ?u = "\<lparr>u_data = [[Some 0, Some 1, Some 2], [Some 1, Some 2, Some 3], [Some 4, Some 5, Some 6]],
        u_series_length = 3, valToPos = (\<lambda>v scale. v),
        bbox_left = 0, bbox_top = 0, bbox_width = 2, bbox_height = 6\<rparr>"
  let ?ctx = "\<lparr>fillStyle = ''#000000'', font = ''10px sans-serif'', textAlign = ''start'',
        textBaseline = ''alphabetic'', drawn = []\<rparr>"
  have r1: "bar_rectangle ?u 2 0 1 1 = FillRect ''#2563eb'' 0 0 (- 2) 1"
    by (simp add: bar_rectangle_def group_left_def group_width_def palette_def Math_round_def)
  have r2: "bar_rectangle ?u 2 0 2 4 = FillRect ''#16a34a'' 0 0 (- 2) 4"
    by (simp add: bar_rectangle_def group_left_def group_width_def palette_def Math_round_def)
  have "\<exists>ctx'. barPlugin_draw ?u ?ctx = Inr ctx' \<and>
     drawn ctx' = drawn ?ctx @
       [bar_rectangle ?u 2 0 1 1, bar_rectangle ?u 2 0 2 4,
        bar_rectangle ?u 2 1 1 2, bar_rectangle ?u 2 1 2 5,
        bar_rectangle ?u 2 2 1 3, bar_rectangle ?u 2 2 2 6]"
    by (rule bar_six) simp_all
  then have d: "\<exists>ctx'. barPlugin_draw ?u ?ctx = Inr ctx' \<and>
      take 2 (drawn ctx') = [FillRect ''#2563eb'' 0 0 (- 2) 1, FillRect ''#16a34a'' 0 0 (- 2) 4]"
    unfolding r1 r2 by auto
  have o: "overlap_x (FillRect ''#2563eb'' 0 0 (- 2) 1) (FillRect ''#16a34a'' 0 0 (- 2) 4)"
    by (simp add: overlap_x_def)
  from r1 r2 d o show ?thesis by blast
qed

text \<open>
  Claim C3, amended. On a surface where one category spans at least 3.75 pixels
  (\<^verbatim>\<open>valToPos(1, 'x') - valToPos(0, 'x')\<close>, so that the rounded bar width is not
  negative), rendering the bar archetype with 2 series and 3 categories, all values
  present, emits exactly 6 filled rectangles, the two of each category in turn; the
  two rectangles of a category do not overlap in x; the rectangle of series \<open>s\<close> starts
  at the left edge of its group (the category's position less half the group width,
  the group width being 80% of one category's pixel span) plus \<open>s - 1\<close> bar widths
  (group width / 2), rounded to a whole pixel, and lies inside the group span widened
  by the half pixel of that rounding on the left.
\<close>

theorem bar_six_rectangles:
  assumes "u_series_length u = 3"
    and "u_data u = [[Some x0, Some x1, Some x2], [Some a0, Some a1, Some a2],
                     [Some b0, Some b1, Some b2]]"
    and "15 / 4 \<le> valToPos u 1 ''x'' - valToPos u 0 ''x''"
  shows "\<exists>ctx'. barPlugin_draw u ctx = Inr ctx' \<and>
     drawn ctx' = drawn ctx @
       [bar_rectangle u 2 0 1 a0, bar_rectangle u 2 0 2 b0,
        bar_rectangle u 2 1 1 a1, bar_rectangle u 2 1 2 b1,
        bar_rectangle u 2 2 1 a2, bar_rectangle u 2 2 2 b2] \<and>
     (\<forall>i a b. \<not> overlap_x (bar_rectangle u 2 i 1 a) (bar_rectangle u 2 i 2 b)) \<and>
     (\<forall>i s v. 1 \<le> s \<and> s \<le> 2 \<longrightarrow>
        group_left u i - 1 / 2 \<le> fst (x_extent (bar_rectangle u 2 i s v)) \<and>
        snd (x_extent (bar_rectangle u 2 i s v)) \<le> group_left u i + group_width u)"
  using bar_six [OF assms(1,2), of ctx] bar_no_overlap [OF assms(3)] bar_in_group [OF assms(3)]
  by blast

theorem bar_six_rectangles_witness:
  "u_series_length
     \<lparr>u_data = [[Some 0, Some 1, Some 2], [Some 1, Some 2, Some 3], [Some 4, Some 5, Some 6]],
        u_series_length = 3,
        valToPos = (\<lambda>v scale. if scale = ''x'' then 100 + 100 * v else 300 - 10 * v),
        bbox_left = 50, bbox_top = 0, bbox_width = 300, bbox_height = 300\<rparr> = 3 \<and>
   (15 / 4 :: real) \<le> (100 + 100 * 1) - (100 + 100 * 0) \<and>
   bar_rectangle
     \<lparr>u_data = [[Some 0, Some 1, Some 2], [Some 1, Some 2, Some 3], [Some 4, Some 5, Some 6]],
        u_series_length = 3,
        valToPos = (\<lambda>v scale. if scale = ''x'' then 100 + 100 * v else 300 - 10 * v),
        bbox_left = 50, bbox_top = 0, bbox_width = 300, bbox_height = 300\<rparr>
     2 0 1 1 = FillRect ''#2563eb'' 60 290 38 10 \<and>
   bar_rectangle
     \<lparr>u_data = [[Some 0, Some 1, Some 2], [Some 1, Some 2, Some 3], [Some 4, Some 5, Some 6]],
        u_series_length = 3,
        valToPos = (\<lambda>v scale. if scale = ''x'' then 100 + 100 * v else 300 - 10 * v),
        bbox_left = 50, bbox_top = 0, bbox_width = 300, bbox_height = 300\<rparr>
     2 0 2 4 = FillRect ''#16a34a'' 100 260 38 40 \<and>
   \<not> overlap_x (FillRect ''#2563eb'' 60 290 38 10) (FillRect ''#16a34a'' 100 260 38 40) \<and>
   (\<exists>ctx'. barPlugin_draw
       \<lparr>u_data = [[Some 0, Some 1, Some 2], [Some 1, Some 2, Some 3], [Some 4, Some 5, Some 6]],
        u_series_length = 3,
        valToPos = (\<lambda>v scale. if scale = ''x'' then 100 + 100 * v else 300 - 10 * v),
        bbox_left = 50, bbox_top = 0, bbox_width = 300, bbox_height = 300\<rparr>
       \<lparr>fillStyle = ''#000000'', font = ''10px sans-serif'', textAlign = ''start'',
        textBaseline = ''alphabetic'', drawn = []\<rparr> = Inr ctx' \<and>
      length (drawn ctx') = 6)"
proof -
  let ?u = "\<lparr>u_data = [[Some 0, Some 1, Some 2], [Some 1, Some 2, Some 3], [Some 4, Some 5, Some 6]],
        u_series_length = 3,
        valToPos = (\<lambda>v scale. if scale = ''x'' then 100 + 100 * v else 300 - 10 * v),
        bbox_left = 50, bbox_top = 0, bbox_width = 300, bbox_height = 300\<rparr>"
  let ?ctx = "\<lparr>fillStyle = ''#000000'', font = ''10px sans-serif'', textAlign = ''start'',
        textBaseline = ''alphabetic'', drawn = []\<rparr>"
  have l: "u_series_length ?u = 3" by simp
  have d: "u_data ?u = [[Some 0, Some 1, Some 2], [Some 1, Some 2, Some 3], [Some 4, Some 5, Some 6]]"
    by simp
  have g: "15 / 4 \<le> valToPos ?u 1 ''x'' - valToPos ?u 0 ''x''" by simp
  have g': "(15 / 4 :: real) \<le> (100 + 100 * 1) - (100 + 100 * 0)" by simp
  have r1: "bar_rectangle ?u 2 0 1 1 = FillRect ''#2563eb'' 60 290 38 10"
    by (simp add: bar_rectangle_def group_left_def group_width_def palette_def Math_round_def)
  have r2: "bar_rectangle ?u 2 0 2 4 = FillRect ''#16a34a'' 100 260 38 40"
    by (simp add: bar_rectangle_def group_left_def group_width_def palette_def Math_round_def)
  from bar_six_rectangles [OF l d g, of ?ctx]
  obtain ctx' where e: "barPlugin_draw ?u ?ctx = Inr ctx'"
    and n: "drawn ctx' = drawn ?ctx @
       [bar_rectangle ?u 2 0 1 1, bar_rectangle ?u 2 0 2 4,
        bar_rectangle ?u 2 1 1 2, bar_rectangle ?u 2 1 2 5,
        bar_rectangle ?u 2 2 1 3, bar_rectangle ?u 2 2 2 6]"
    and o: "\<not> overlap_x (bar_rectangle ?u 2 0 1 1) (bar_rectangle ?u 2 0 2 4)"
    by blast
  from n have six: "length (drawn ctx') = 6" by simp
  from o have o': "\<not> overlap_x (FillRect ''#2563eb'' 60 290 38 10) (FillRect ''#16a34a'' 100 260 38 40)"
    unfolding r1 r2 .
  from e six have "\<exists>ctx'. barPlugin_draw ?u ?ctx = Inr ctx' \<and> length (drawn ctx') = 6" by blast
  with l g' r1 r2 o' show ?thesis by blast
qed

section \<open>Gauge: the foreground bar\<close>

lemma gauge_scaled:
  assumes "gauge_max g \<noteq> gauge_min g"
  shows "drawn (gaugePlugin_draw g u ctx) ! Suc (length (drawn ctx)) =
     FillRect ''#2563eb'' (bbox_left u) (bbox_top u + bbox_height u / 2 - 15)
       (bbox_width u * ((gauge_value g - gauge_min g) / (gauge_max g - gauge_min g))) 30"
  using assms
  by (simp add: gaugePlugin_draw_def fillRect_def fillText_def palette_def Let_def nth_append)

text \<open>
  Claim C4. Rendering a gauge with value 50, min 0, max 100 on a plot whose bounding
  box is 200 pixels wide draws, after the background bar of width 200, a foreground
  bar exactly 100 pixels wide (the width 200 scaled by \<open>(50 - 0) / (100 - 0)\<close>), then
  the label.
\<close>

theorem gauge_half_width:
  "drawn (gaugePlugin_draw \<lparr>gauge_value = 50, gauge_min = 0, gauge_max = 100\<rparr>
            (u\<lparr>bbox_width := 200\<rparr>) ctx) =
     drawn ctx @
       [FillRect ''#f0f0f0'' (bbox_left u) (bbox_top u + bbox_height u / 2 - 15) 200 30,
        FillRect ''#2563eb'' (bbox_left u) (bbox_top u + bbox_height u / 2 - 15) 100 30,
        FillText ''#333'' [Number_toFixed 50 1, Chars '' / '', Number_toString 100]
          (bbox_left u + 100) (bbox_top u + bbox_height u / 2)]"
  by (simp add: gaugePlugin_draw_def fillRect_def fillText_def palette_def Let_def)

end

